theory Spec2Isabelle
  imports Main "HOL-Library.AList"
begin

section \<open>Machine integers\<close>

text \<open>
  Go's \<open>uint64\<close> and \<open>uint32\<close> values are natural numbers below \<open>2 ^ 64\<close> and
  \<open>2 ^ 32\<close>, \<open>int64\<close> values are integers; every operation that can leave the range
  wraps around as the hardware does.
\<close>

definition add64 :: "nat \<Rightarrow> nat \<Rightarrow> nat" where
  "add64 a b = nat ((int a + int b) mod 2 ^ 64)"

definition mul64 :: "nat \<Rightarrow> nat \<Rightarrow> nat" where
  "mul64 a b = nat ((int a * int b) mod 2 ^ 64)"

definition sub64 :: "nat \<Rightarrow> nat \<Rightarrow> nat" where
  "sub64 a b = nat ((int a - int b) mod 2 ^ 64)"

definition mul32 :: "nat \<Rightarrow> nat \<Rightarrow> nat" where
  "mul32 a b = nat ((int a * int b) mod 2 ^ 32)"

definition uint32 :: "int \<Rightarrow> nat" where
  "uint32 x = nat (x mod 2 ^ 32)"

definition uint64 :: "int \<Rightarrow> nat" where
  "uint64 x = nat (x mod 2 ^ 64)"

definition int64 :: "int \<Rightarrow> int" where
  "int64 x = (x + 2 ^ 63) mod 2 ^ 64 - 2 ^ 63"

section \<open>Errors\<close>

text \<open>
  One constructor for each error value the block cache builds, \<open>EOF\<close> for \<open>io.EOF\<close>,
  \<open>NextError\<close> for an error of the downstream component, and \<open>Panic\<close> for a run-time
  panic (a failed type assertion, a slice bound out of range, a division by zero).
\<close>

datatype error =
    EOF
  | NextError string
  | PrefetchScheduleFailed
  | DownloadScheduleFailed
  | BlockNotFound
  | GetBlockFailed error
  | BlockNeverUsed
  | InvalidReadyState
  | InvalidUnblockState
  | InvalidSize
  | ConfigError
  | Panic

section \<open>Block\<close>

text \<open>
  The readiness channel of a block: a buffered channel of small integers.
\<close>

record chan =
  tokens :: "nat list"
  ch_closed :: bool

record Block =
  id_blk :: nat
  data :: "nat list"
  state :: "chan option"
  closed :: bool

text \<open>
  Modelled from the spec: \<open>AllocateBlock\<close>, \<open>ReUse\<close>, \<open>ReadyForReading\<close> and
  \<open>Unblock\<close> of \<open>Block\<close> (block.go is not among the sources; block\_test.go is).
  \<open>AllocateBlock\<close> requires a size above 0 ("invalid size" otherwise); a fresh
  block has \<open>closed = true\<close>, \<open>state = nil\<close>, id 0 and a zeroed buffer of the
  requested size.
\<close>

definition AllocateBlock :: "nat \<Rightarrow> error + Block" where
  "AllocateBlock sz =
     (if sz = 0 then Inl InvalidSize
      else Inr \<lparr>id_blk = 0, data = replicate sz 0, state = None, closed = True\<rparr>)"

text \<open>
  Modelled from the spec: \<open>ReUse\<close> replaces \<open>state\<close> with a fresh channel of
  capacity 2 and sets \<open>closed = false\<close>.
\<close>

definition ReUse :: "Block \<Rightarrow> Block" where
  "ReUse b = b\<lparr>state := Some \<lparr>tokens = [], ch_closed = False\<rparr>, closed := False\<rparr>"

text \<open>
  Modelled from the spec: \<open>ReadyForReading\<close> pushes the tokens 1 then 2; it fails with
  "block was never used" when \<open>state = nil\<close> and with "invalid state to mark it ready"
  when the block has been marked ready before.
\<close>

definition ReadyForReading :: "Block \<Rightarrow> Block \<times> error option" where
  "ReadyForReading b =
     (case state b of
        None \<Rightarrow> (b, Some BlockNeverUsed)
      | Some ch \<Rightarrow>
          if tokens ch \<noteq> [] \<or> ch_closed ch then (b, Some InvalidReadyState)
          else (b\<lparr>state := Some (ch\<lparr>tokens := [1, 2]\<rparr>)\<rparr>, None))"

text \<open>
  Modelled from the spec: \<open>Unblock\<close> sets \<open>closed = true\<close> and closes \<open>state\<close>; it
  fails with "invalid state of block to unblock" when \<open>state = nil\<close> or the block is
  closed already. The block test receives the two tokens after \<open>Unblock\<close>, so tokens
  still buffered stay in the closed channel.
\<close>

definition Unblock :: "Block \<Rightarrow> Block \<times> error option" where
  "Unblock b =
     (case state b of
        None \<Rightarrow> (b, Some InvalidUnblockState)
      | Some ch \<Rightarrow>
          if closed b then (b, Some InvalidUnblockState)
          else (b\<lparr>state := Some (ch\<lparr>ch_closed := True\<rparr>), closed := True\<rparr>, None))"

text \<open>
  The channel receive \<open><-b.state\<close>: a buffered token if there is one, the zero value
  from a closed channel, and otherwise (or on a nil channel) the receiver parks:
  \<open>None\<close>.
\<close>

definition recv :: "Block \<Rightarrow> (Block \<times> nat) option" where
  "recv b =
     (case state b of
        None \<Rightarrow> None
      | Some ch \<Rightarrow>
          (case tokens ch of
             t # ts \<Rightarrow> Some (b\<lparr>state := Some (ch\<lparr>tokens := ts\<rparr>)\<rparr>, t)
           | [] \<Rightarrow> if ch_closed ch then Some (b, 0) else None))"

section \<open>BlockPool, ThreadPool, Handle\<close>

text \<open>
  Modelled from the spec: \<open>BlockPool\<close> (blockpool.go is not among the sources).
  \<open>blocksCh\<close> is the FIFO channel of available blocks (pointers into the heap of
  blocks), \<open>blocks\<close> the number of blocks allocated so far.
\<close>

record BlockPool =
  blockSize :: nat
  maxBlocks :: nat
  blocksCh :: "nat list"
  blocks :: nat

text \<open>
  One work item: a pointer to the handle and a pointer to the block.
\<close>

record workItem =
  handle :: nat
  block :: nat

text \<open>
  Modelled from the spec: \<open>ThreadPool\<close> (threadpool.go is not among the sources):
  a worker count and the two job channels.
\<close>

record ThreadPool =
  worker :: nat
  priorityCh :: "workItem list"
  normalCh :: "workItem list"

text \<open>
  The values the block cache stores in a handle's key/value bag: the \<open>uint64\<close> next
  offset under \<open>"#"\<close>, a \<open>workItem\<close> under a block index.
\<close>

datatype hvalue = U64 nat | Item workItem

text \<open>
  Modelled from the spec: the \<open>Handle\<close> of the enclosing framework, with \<open>Path\<close>,
  \<open>Size\<close> and a string-keyed bag of values.
\<close>

record Handle =
  Path :: string
  Size :: int
  hvalues :: "(string \<times> hvalue) list"

text \<open>
  The downstream component: \<open>GetAttr\<close> gives the size of a file or an error;
  \<open>ReadInBuffer\<close> gets the path of the handle, the offset and the buffer, and gives
  the buffer as it has filled it, the count of bytes and the error.
\<close>

record NextComponent =
  GetAttr :: "string \<Rightarrow> error + int"
  NextReadInBuffer :: "string \<Rightarrow> int \<Rightarrow> nat list \<Rightarrow> nat list \<times> int \<times> error option"

text \<open>
  The block cache with everything its pointers reach: the blocks and the handles,
  each in a table from pointers to what they point to (\<open>nhandles\<close> handles
  created so far), and the goroutines started with \<open>go bc.releaseBlock(b)\<close> that
  have not run yet.
\<close>

record BlockCache =
  blockSizeMB :: nat
  memSizeMB :: nat
  workers :: nat
  prefetch :: nat
  blockPool :: BlockPool
  threadPool :: ThreadPool
  blockTable :: "(nat \<times> Block) list"
  handleTable :: "(nat \<times> Handle) list"
  nhandles :: nat
  spawned :: "nat list"

text \<open>
  Reading and writing through a pointer to a block: \<open>heap s b\<close> is \<open>*b\<close>, and
  \<open>heap_upd s b blk\<close> is \<open>*b = blk\<close>.
\<close>

definition heap :: "BlockCache \<Rightarrow> nat \<Rightarrow> Block" where
  "heap s b =
     (case map_of (blockTable s) b of
        Some blk \<Rightarrow> blk
      | None \<Rightarrow> \<lparr>id_blk = 0, data = [], state = None, closed = True\<rparr>)"

definition heap_upd :: "BlockCache \<Rightarrow> nat \<Rightarrow> Block \<Rightarrow> BlockCache" where
  "heap_upd s b blk = s\<lparr>blockTable := AList.update b blk (blockTable s)\<rparr>"

text \<open>
  The same through a pointer to a handle.
\<close>

definition handles :: "BlockCache \<Rightarrow> nat \<Rightarrow> Handle" where
  "handles s hp =
     (case map_of (handleTable s) hp of
        Some h \<Rightarrow> h
      | None \<Rightarrow> \<lparr>Path = [], Size = 0, hvalues = []\<rparr>)"

definition handles_upd :: "BlockCache \<Rightarrow> nat \<Rightarrow> Handle \<Rightarrow> BlockCache" where
  "handles_upd s hp h = s\<lparr>handleTable := AList.update hp h (handleTable s)\<rparr>"

section \<open>Operations of the pool, the thread pool and the handle\<close>

text \<open>
  Modelled from the spec: \<open>NewBlockPool\<close> gives nil when either size is 0 or
  \<open>maxBlocks = memSize / blockSize\<close> is below 1.
\<close>

definition NewBlockPool :: "nat \<Rightarrow> nat \<Rightarrow> BlockPool option" where
  "NewBlockPool bsize msize =
     (if bsize = 0 \<or> msize = 0 \<or> msize div bsize < 1 then None
      else Some \<lparr>blockSize = bsize, maxBlocks = msize div bsize, blocksCh = [], blocks = 0\<rparr>)"

text \<open>
  Modelled from the spec: \<open>Get\<close> takes a block from the free list if there is one,
  allocates a new one while fewer than \<open>maxBlocks\<close> exist, and otherwise waits for a
  release, giving nil on timeout; in a run with no other thread to release a block
  that is nil. The block returned has been armed with \<open>ReUse\<close>. The n-th block
  allocated gets the pointer n.
\<close>

definition Get :: "BlockCache \<Rightarrow> BlockCache \<times> nat option" where
  "Get s =
     (let p = blockPool s in
      case blocksCh p of
        b # bs \<Rightarrow>
          (heap_upd (s\<lparr>blockPool := p\<lparr>blocksCh := bs\<rparr>\<rparr>) b (ReUse (heap s b)), Some b)
      | [] \<Rightarrow>
          if blocks p < maxBlocks p then
            (case AllocateBlock (blockSize p) of
               Inl err \<Rightarrow> (s, None)
             | Inr blk \<Rightarrow>
                 (heap_upd (s\<lparr>blockPool := p\<lparr>blocks := blocks p + 1\<rparr>\<rparr>) (blocks p) (ReUse blk),
                  Some (blocks p)))
          else (s, None))"

text \<open>
  Modelled from the spec: \<open>Release\<close> pushes the block back onto the free list.
\<close>

definition Release :: "BlockCache \<Rightarrow> nat \<Rightarrow> BlockCache" where
  "Release s b = s\<lparr>blockPool := (blockPool s)\<lparr>blocksCh := blocksCh (blockPool s) @ [b]\<rparr>\<rparr>"

text \<open>
  Modelled from the spec: \<open>newThreadPool\<close> requires at least one worker (and a
  reader, which here is always \<open>download\<close>); \<open>Schedule\<close> pushes the item to the
  channel of its priority.
\<close>

definition newThreadPool :: "nat \<Rightarrow> ThreadPool option" where
  "newThreadPool w = (if w = 0 then None else Some \<lparr>worker = w, priorityCh = [], normalCh = []\<rparr>)"

definition Schedule :: "BlockCache \<Rightarrow> bool \<Rightarrow> workItem \<Rightarrow> BlockCache" where
  "Schedule s urgent item =
     (let tp = threadPool s in
      if urgent then s\<lparr>threadPool := tp\<lparr>priorityCh := priorityCh tp @ [item]\<rparr>\<rparr>
      else s\<lparr>threadPool := tp\<lparr>normalCh := normalCh tp @ [item]\<rparr>\<rparr>)"

text \<open>
  Modelled from the spec: \<open>NewHandle\<close>, \<open>GetValue\<close>, \<open>SetValue\<close> and
  \<open>RemoveValue\<close> of the handle's string-keyed bag.
\<close>

definition NewHandle :: "string \<Rightarrow> Handle" where
  "NewHandle name = \<lparr>Path = name, Size = 0, hvalues = []\<rparr>"

definition GetValue :: "Handle \<Rightarrow> string \<Rightarrow> hvalue option" where
  "GetValue h key = map_of (hvalues h) key"

definition SetValue :: "BlockCache \<Rightarrow> nat \<Rightarrow> string \<Rightarrow> hvalue \<Rightarrow> BlockCache" where
  "SetValue s hp key v =
     handles_upd s hp ((handles s hp)\<lparr>hvalues := AList.update key v (hvalues (handles s hp))\<rparr>)"

definition RemoveValue :: "BlockCache \<Rightarrow> nat \<Rightarrow> string \<Rightarrow> BlockCache" where
  "RemoveValue s hp key =
     handles_upd s hp ((handles s hp)\<lparr>hvalues := AList.delete key (hvalues (handles s hp))\<rparr>)"

text \<open>
  \<open>fmt.Sprintf("%v", n)\<close> of a \<open>uint64\<close>: its decimal digits.
\<close>

definition digit :: "nat \<Rightarrow> char" where
  "digit d = ''0123456789'' ! d"

fun Sprintf :: "nat \<Rightarrow> string" where
  "Sprintf n = (if n < 10 then [digit n] else Sprintf (n div 10) @ [digit (n mod 10)])"

declare Sprintf.simps [simp del]

section \<open>The block cache\<close>

text \<open>
  Modelled from the spec: the constant \<open>_1MB\<close> (its declaration is not among the
  sources): the block size and the memory size are configured in MiB.
\<close>

definition MB1 :: nat where
  "MB1 = 1048576"

text \<open>
  \<open>Configure\<close>, on the values it reads from the configuration (the \<open>read-only\<close>
  flag and the options of the component): the file system must be mounted
  read-only; the sizes are products of \<open>uint32\<close> values, converted to \<open>uint64\<close>
  afterwards.
\<close>

record BlockCacheOptions =
  BlockSize :: nat
  MemSize :: nat
  PrefetchCount :: nat
  Workers :: nat

definition Configure :: "BlockCache \<Rightarrow> bool \<Rightarrow> BlockCacheOptions \<Rightarrow> error + BlockCache" where
  "Configure s readonly conf =
     (if \<not> readonly then Inl ConfigError
      else
        let s1 = s\<lparr>blockSizeMB := BlockSize conf, memSizeMB := MemSize conf,
                    workers := Workers conf, prefetch := PrefetchCount conf\<rparr>
        in case NewBlockPool (mul32 (blockSizeMB s1) MB1) (mul32 (memSizeMB s1) MB1) of
             None \<Rightarrow> Inl ConfigError
           | Some pool \<Rightarrow>
               (case newThreadPool (workers s1) of
                  None \<Rightarrow> Inl ConfigError
                | Some tp \<Rightarrow> Inr (s1\<lparr>blockPool := pool, threadPool := tp\<rparr>)))"

text \<open>
  \<open>lineupDownload\<close>: a block from the pool, its id, the work item stored on the
  handle under the block index, and the fetch submitted (priority iff the offset is 0).
\<close>

definition lineupDownload :: "BlockCache \<Rightarrow> nat \<Rightarrow> nat \<Rightarrow> BlockCache \<times> error option" where
  "lineupDownload s hp offset =
     (case Get s of
        (s1, None) \<Rightarrow> (s1, Some PrefetchScheduleFailed)
      | (s1, Some b) \<Rightarrow>
          if blockSize (blockPool s1) = 0 then (s1, Some Panic)
          else
            let item = \<lparr>handle = hp, block = b\<rparr>;
                s2 = heap_upd s1 b ((heap s1 b)\<lparr>id_blk := offset div blockSize (blockPool s1)\<rparr>);
                s3 = SetValue s2 hp (Sprintf (id_blk (heap s2 b))) (Item item)
            in (Schedule s3 (offset = 0) item, None))"

text \<open>
  \<open>download\<close>, the worker callback: the downstream read into the block's buffer,
  the item scheduled again on an error and again on zero bytes, and then
  \<open>ReadyForReading\<close>, whose result is dropped.
\<close>

definition download :: "NextComponent \<Rightarrow> BlockCache \<Rightarrow> workItem \<Rightarrow> BlockCache" where
  "download nc s item =
     (let blk = heap s (block item);
          (buf, n, err) = NextReadInBuffer nc (Path (handles s (handle item)))
                            (int64 (int (mul64 (id_blk blk) (blockSize (blockPool s))))) (data blk);
          s1 = heap_upd s (block item) (blk\<lparr>data := buf\<rparr>);
          s2 = (if err \<noteq> None then Schedule s1 False item else s1);
          s3 = (if n = 0 then Schedule s2 False item else s2)
      in heap_upd s3 (block item) (fst (ReadyForReading (heap s3 (block item)))))"

text \<open>
  Modelled from the spec: a worker of the thread pool takes a job from
  \<open>priorityCh\<close> if there is one, otherwise from \<open>normalCh\<close>, and calls the reader on
  it. \<open>None\<close>: no job is queued.
\<close>

definition worker_step :: "NextComponent \<Rightarrow> BlockCache \<Rightarrow> BlockCache option" where
  "worker_step nc s =
     (let tp = threadPool s in
      case priorityCh tp of
        item # rest \<Rightarrow> Some (download nc (s\<lparr>threadPool := tp\<lparr>priorityCh := rest\<rparr>\<rparr>) item)
      | [] \<Rightarrow>
          (case normalCh tp of
             item # rest \<Rightarrow> Some (download nc (s\<lparr>threadPool := tp\<lparr>normalCh := rest\<rparr>\<rparr>) item)
           | [] \<Rightarrow> None))"

text \<open>
  \<open>t = <-block.state\<close> in a reader: the reader takes a token if it can; while it
  cannot, the workers run the queued jobs, one after the other. \<open>None\<close>: the reader
  never wakes up (no token and no job left, or jobs for ever without a token for
  this block).
\<close>

partial_function (option) await :: "NextComponent \<Rightarrow> BlockCache \<Rightarrow> nat \<Rightarrow> (BlockCache \<times> nat) option" where
  "await nc s b =
     (case recv (heap s b) of
        Some (blk, t) \<Rightarrow> Some (heap_upd s b blk, t)
      | None \<Rightarrow>
          (case worker_step nc s of
             None \<Rightarrow> None
           | Some s1 \<Rightarrow> await nc s1 b))"

definition getBlockIndex :: "BlockCache \<Rightarrow> nat \<Rightarrow> nat" where
  "getBlockIndex s offset = offset div blockSize (blockPool s)"

text \<open>
  \<open>getBlock\<close>, lines 284 to 300: the work item under the block index, lined up
  first when it is not there.
\<close>

definition findItem :: "BlockCache \<Rightarrow> nat \<Rightarrow> nat \<Rightarrow> BlockCache \<times> (error + hvalue)" where
  "findItem s hp readoffset =
     (let index = getBlockIndex s readoffset in
      case GetValue (handles s hp) (Sprintf index) of
        Some item \<Rightarrow> (s, Inr item)
      | None \<Rightarrow>
          (case lineupDownload s hp readoffset of
             (s1, Some err) \<Rightarrow> (s1, Inl (if err = Panic then Panic else DownloadScheduleFailed))
           | (s1, None) \<Rightarrow>
               (case GetValue (handles s1 hp) (Sprintf index) of
                  None \<Rightarrow> (s1, Inl BlockNotFound)
                | Some item \<Rightarrow> (s1, Inr item))))"

text \<open>
  \<open>getBlock\<close>, lines 308 to 318: the first reader of a block lines up the block at
  the offset under \<open>"#"\<close> and moves \<open>"#"\<close> one block on; a failure to line up is
  only logged.
\<close>

definition firstReader :: "BlockCache \<Rightarrow> nat \<Rightarrow> BlockCache \<times> error option" where
  "firstReader s hp =
     (case GetValue (handles s hp) ''#'' of
        None \<Rightarrow> (s, None)
      | Some (Item w) \<Rightarrow> (s, Some Panic)
      | Some (U64 lastoffset) \<Rightarrow>
          if lastoffset < uint64 (Size (handles s hp)) then
            (case lineupDownload s hp lastoffset of
               (s1, Some err) \<Rightarrow> (s1, if err = Panic then Some Panic else None)
             | (s1, None) \<Rightarrow>
                 (SetValue s1 hp ''#'' (U64 (add64 lastoffset (blockSize (blockPool s1)))), None))
          else (s, None))"

text \<open>
  \<open>getBlock\<close>, lines 319 to 331: the second reader unblocks the block and, from
  block 3 on, drops the item three blocks back from the handle; its block is
  released by a goroutine of its own.
\<close>

definition secondReader :: "BlockCache \<Rightarrow> nat \<Rightarrow> nat \<Rightarrow> BlockCache \<times> error option" where
  "secondReader s hp b =
     (let s1 = heap_upd s b (fst (Unblock (heap s b))) in
      if id_blk (heap s1 b) \<ge> 3 then
        (let delId = id_blk (heap s1 b) - 3 in
         case GetValue (handles s1 hp) (Sprintf delId) of
           None \<Rightarrow> (s1, None)
         | Some (U64 v) \<Rightarrow> (s1, Some Panic)
         | Some (Item delItem) \<Rightarrow>
             (RemoveValue (s1\<lparr>spawned := spawned s1 @ [block delItem]\<rparr>) hp (Sprintf delId), None))
      else (s1, None))"

text \<open>
  \<open>getBlock\<close>: \<open>None\<close> when the reader never wakes up, otherwise the state and
  the error or the pointer to the block.
\<close>

definition getBlock :: "NextComponent \<Rightarrow> BlockCache \<Rightarrow> nat \<Rightarrow> nat \<Rightarrow> (BlockCache \<times> (error + nat)) option" where
  "getBlock nc s hp readoffset =
     (if readoffset \<ge> uint64 (Size (handles s hp)) then Some (s, Inl EOF)
      else if blockSize (blockPool s) = 0 then Some (s, Inl Panic)
      else
        (case findItem s hp readoffset of
           (s1, Inl err) \<Rightarrow> Some (s1, Inl err)
         | (s1, Inr (U64 v)) \<Rightarrow> Some (s1, Inl Panic)
         | (s1, Inr (Item item)) \<Rightarrow>
             (case await nc s1 (block item) of
                None \<Rightarrow> None
              | Some (s2, t) \<Rightarrow>
                  if t = 1 then
                    (case firstReader s2 hp of
                       (s3, Some err) \<Rightarrow> Some (s3, Inl err)
                     | (s3, None) \<Rightarrow> Some (s3, Inr (block item)))
                  else if t = 2 then
                    (case secondReader s2 hp (block item) of
                       (s3, Some err) \<Rightarrow> Some (s3, Inl err)
                     | (s3, None) \<Rightarrow> Some (s3, Inr (block item)))
                  else Some (s2, Inr (block item)))))"

text \<open>
  \<open>releaseBlock\<close>, the body of the goroutine: it waits for the channel and gives the
  block back to the pool when the channel is closed and empty.
\<close>

definition releaseBlock :: "BlockCache \<Rightarrow> nat \<Rightarrow> BlockCache option" where
  "releaseBlock s b =
     (case recv (heap s b) of
        None \<Rightarrow> None
      | Some (blk, t) \<Rightarrow>
          (let s1 = heap_upd s b blk in
           if t = 0 then Some (Release s1 b) else Some s1))"

text \<open>
  \<open>OpenFile\<close>, the loop of lines 172 to 181; it gives the error of
  \<open>lineupDownload\<close> or the value of \<open>nextoffset\<close> at its end. The field
  \<open>prefetch\<close> is a \<open>uint32\<close>.
\<close>

function OpenFile_loop :: "BlockCache \<Rightarrow> nat \<Rightarrow> int \<Rightarrow> nat \<Rightarrow> BlockCache \<times> (error + nat)" where
  "OpenFile_loop s hp i nextoffset =
     (if uint32 i < uint32 (int (prefetch s)) \<and> int64 (int nextoffset) < Size (handles s hp) then
        (let s1 = SetValue s hp ''#'' (U64 nextoffset) in
         case lineupDownload s1 hp nextoffset of
           (s2, Some err) \<Rightarrow> (s2, Inl err)
         | (s2, None) \<Rightarrow> OpenFile_loop s2 hp (i + 1) (add64 nextoffset (blockSize (blockPool s2))))
      else (s, Inr nextoffset))"
  by pat_completeness auto

lemma uint32_lt: "uint32 x < 4294967296"
proof -
  have "x mod 4294967296 < 4294967296" by simp
  then show ?thesis unfolding uint32_def by simp
qed

lemma uint32_succ:
  assumes "uint32 i < uint32 p"
  shows "uint32 (i + 1) = Suc (uint32 i)"
proof -
  have m0: "0 \<le> i mod 4294967296" by simp
  have "uint32 i < 4294967295"
    using assms uint32_lt [of p] by linarith
  then have lt: "i mod 4294967296 + 1 < 4294967296"
    unfolding uint32_def using m0 by simp
  have "(i + 1) mod 4294967296 = (i mod 4294967296 + 1) mod 4294967296"
    by (simp add: mod_add_left_eq)
  also have "\<dots> = i mod 4294967296 + 1"
    using m0 lt by simp
  finally show ?thesis
    unfolding uint32_def using m0 by (simp add: nat_add_distrib)
qed

termination OpenFile_loop
proof (relation "measure (\<lambda>(s, hp, i, nextoffset). 4294967296 - uint32 i)", goal_cases)
  case 1
  show ?case by simp
next
  case (2 s hp i nextoffset)
  then have "uint32 i < uint32 (int (prefetch s))" by simp
  then have "uint32 (i + 1) = Suc (uint32 i)" by (rule uint32_succ)
  moreover have "uint32 i < 4294967296" by (rule uint32_lt)
  ultimately show ?case by simp
qed

declare OpenFile_loop.simps [simp del]

text \<open>
  \<open>OpenFile\<close>: the attributes from the downstream component, a new handle with
  the size of the file, the first blocks lined up, and \<open>"#"\<close> left at the next
  offset. On an error the handle is not returned; it stays in the table of handles,
  out of reach.
\<close>

definition OpenFile :: "NextComponent \<Rightarrow> BlockCache \<Rightarrow> string \<Rightarrow> BlockCache \<times> (error + nat)" where
  "OpenFile nc s name =
     (case GetAttr nc name of
        Inl err \<Rightarrow> (s, Inl err)
      | Inr sz \<Rightarrow>
          (let hp = nhandles s;
               s0 = handles_upd (s\<lparr>nhandles := hp + 1\<rparr>) hp ((NewHandle name)\<lparr>Size := sz\<rparr>)
           in case OpenFile_loop s0 hp 0 0 of
                (s1, Inl err) \<Rightarrow> (s1, Inl err)
              | (s1, Inr nextoffset) \<Rightarrow> (SetValue s1 hp ''#'' (U64 nextoffset), Inr hp)))"

text \<open>
  \<open>copy(dst[dataRead:], src[readOffset:])\<close>: the count of bytes copied and the
  destination afterwards.
\<close>

definition copy :: "nat list \<Rightarrow> nat \<Rightarrow> nat list \<Rightarrow> nat \<Rightarrow> nat \<times> nat list" where
  "copy dst dataRead src readOffset =
     (let n = min (length dst - dataRead) (length src - readOffset)
      in (n, take dataRead dst @ take n (drop readOffset src) @ drop (dataRead + n) dst))"

text \<open>
  \<open>ReadInBuffer\<close>, one run of the body of the loop of lines 193 to 212, on the
  values of \<open>options.Offset\<close>, \<open>options.Data\<close> and \<open>dataRead\<close>: \<open>Inl\<close> when the
  body returns (with the values where it stops and the error), \<open>Inr\<close> when the loop
  goes on, \<open>None\<close> when the reader never wakes up. Slicing \<open>block.data\<close> beyond its
  length panics. \<open>getBlock\<close> gives no nil block without an error, so line 205 is
  never reached.
\<close>

definition ReadInBuffer_body ::
  "NextComponent \<Rightarrow> BlockCache \<Rightarrow> nat \<Rightarrow> int \<Rightarrow> nat list \<Rightarrow> nat \<Rightarrow>
     ((BlockCache \<times> int \<times> nat list \<times> nat \<times> error option) + (BlockCache \<times> int \<times> nat list \<times> nat)) option" where
  "ReadInBuffer_body nc s hp Offset Data dataRead =
     (case getBlock nc s hp (uint64 Offset) of
        None \<Rightarrow> None
      | Some (s1, Inl err) \<Rightarrow>
          if err \<noteq> EOF then
            Some (Inl (s1, Offset, Data, 0, Some (if err = Panic then Panic else GetBlockFailed err)))
          else Some (Inl (s1, Offset, Data, dataRead, Some err))
      | Some (s1, Inr b) \<Rightarrow>
          (let readOffset = sub64 (uint64 Offset) (mul64 (id_blk (heap s1 b)) (blockSize (blockPool s1)))
           in if readOffset > length (data (heap s1 b)) then
                Some (Inl (s1, Offset, Data, dataRead, Some Panic))
              else
                (case copy Data dataRead (data (heap s1 b)) readOffset of
                   (n, Data1) \<Rightarrow>
                     Some (Inr (s1, int64 (Offset + int (dataRead + n)), Data1, dataRead + n)))))"

text \<open>
  The loop: \<open>for dataRead < len(options.Data)\<close>, and \<open>return dataRead, nil\<close> after
  it. \<open>None\<close>: the call does not return.
\<close>

partial_function (option) ReadInBuffer_loop ::
  "NextComponent \<Rightarrow> nat \<Rightarrow> BlockCache \<times> int \<times> nat list \<times> nat \<Rightarrow>
     (BlockCache \<times> int \<times> nat list \<times> nat \<times> error option) option" where
  "ReadInBuffer_loop nc hp st =
     (case st of (s, Offset, Data, dataRead) \<Rightarrow>
        if dataRead < length Data then
          (case ReadInBuffer_body nc s hp Offset Data dataRead of
             None \<Rightarrow> None
           | Some (Inl res) \<Rightarrow> Some res
           | Some (Inr st1) \<Rightarrow> ReadInBuffer_loop nc hp st1)
        else Some (s, Offset, Data, dataRead, None))"

text \<open>
  \<open>ReadInBuffer\<close>: the state, the buffer as the call leaves it, the count and the
  error.
\<close>

definition ReadInBuffer ::
  "NextComponent \<Rightarrow> BlockCache \<Rightarrow> nat \<Rightarrow> int \<Rightarrow> nat list \<Rightarrow> (BlockCache \<times> nat list \<times> nat \<times> error option) option" where
  "ReadInBuffer nc s hp Offset Data =
     (case ReadInBuffer_loop nc hp (s, Offset, Data, 0) of
        None \<Rightarrow> None
      | Some (s1, Offset1, Data1, n, err) \<Rightarrow> Some (s1, Data1, n, err))"

declare await.simps [code] ReadInBuffer_loop.simps [code]

text \<open>
  The loop states a call goes through: \<open>iterations nc hp st st1\<close> when the loop,
  started in \<open>st\<close>, comes to the head of the loop in \<open>st1\<close>.
\<close>

inductive iterations ::
  "NextComponent \<Rightarrow> nat \<Rightarrow> BlockCache \<times> int \<times> nat list \<times> nat \<Rightarrow> BlockCache \<times> int \<times> nat list \<times> nat \<Rightarrow> bool"
  for nc :: NextComponent and hp :: nat where
  start: "iterations nc hp st st"
| again: "iterations nc hp st (s, Offset, Data, dataRead) \<Longrightarrow> dataRead < length Data \<Longrightarrow>
          ReadInBuffer_body nc s hp Offset Data dataRead = Some (Inr st1) \<Longrightarrow>
          iterations nc hp st st1"

text \<open>
  Modelled from the spec: \<open>CleanupWithCallback\<close> of the handle goes through the
  key/value bag, calls the callback on every entry and removes it.
\<close>

fun CleanupWithCallback ::
  "(BlockCache \<Rightarrow> string \<Rightarrow> hvalue \<Rightarrow> BlockCache \<times> error option) \<Rightarrow> BlockCache \<Rightarrow> nat \<Rightarrow>
     (string \<times> hvalue) list \<Rightarrow> BlockCache \<times> error option" where
  "CleanupWithCallback clean s hp [] = (s, None)"
| "CleanupWithCallback clean s hp ((key, item) # rest) =
     (case clean s key item of
        (s1, Some err) \<Rightarrow> (s1, Some err)
      | (s1, None) \<Rightarrow> CleanupWithCallback clean (RemoveValue s1 hp key) hp rest)"

text \<open>
  \<open>CloseFile\<close>: the callback releases the block of every entry whose key is not
  \<open>"#"\<close>; the type assertion \<open>item.(workItem)\<close> panics on any other value.
\<close>

definition CloseFile_callback :: "BlockCache \<Rightarrow> string \<Rightarrow> hvalue \<Rightarrow> BlockCache \<times> error option" where
  "CloseFile_callback s key item =
     (if key \<noteq> ''#'' then
        (case item of
           Item w \<Rightarrow> (Release s (block w), None)
         | U64 v \<Rightarrow> (s, Some Panic))
      else (s, None))"

definition CloseFile :: "BlockCache \<Rightarrow> nat \<Rightarrow> BlockCache \<times> error option" where
  "CloseFile s hp = CleanupWithCallback CloseFile_callback s hp (hvalues (handles s hp))"

section \<open>Components for the scenarios\<close>

text \<open>
  \<open>NewBlockCacheComponent\<close>: the zero value of the structure, with no block and no
  handle yet.
\<close>

definition NewBlockCacheComponent :: BlockCache where
  "NewBlockCacheComponent =
     \<lparr>blockSizeMB = 0, memSizeMB = 0, workers = 0, prefetch = 0,
      blockPool = \<lparr>blockSize = 0, maxBlocks = 0, blocksCh = [], blocks = 0\<rparr>,
      threadPool = \<lparr>worker = 0, priorityCh = [], normalCh = []\<rparr>,
      blockTable = [], handleTable = [],
      nhandles = 0, spawned = []\<rparr>"

text \<open>
  A block cache over a pool made by \<open>NewBlockPool bsize msize\<close> (sizes in bytes,
  as the pool takes them) and a thread pool of one worker, with the given prefetch
  count.
\<close>

definition cacheOf :: "nat \<Rightarrow> nat \<Rightarrow> nat \<Rightarrow> BlockCache" where
  "cacheOf bsize msize pf =
     (case NewBlockPool bsize msize of
        None \<Rightarrow> NewBlockCacheComponent
      | Some pool \<Rightarrow>
          (case newThreadPool 1 of
             None \<Rightarrow> NewBlockCacheComponent
           | Some tp \<Rightarrow> NewBlockCacheComponent\<lparr>prefetch := pf, blockPool := pool, threadPool := tp\<rparr>))"

text \<open>
  A downstream component that serves one content for every path: the size of the
  content, and reads that fill the buffer from the offset on as far as the content
  goes.
\<close>

definition fileComponent :: "nat list \<Rightarrow> NextComponent" where
  "fileComponent content =
     \<lparr>GetAttr = (\<lambda>name. Inr (int (length content))),
      NextReadInBuffer = (\<lambda>path off buf.
        (let part = take (length buf) (drop (nat off) content)
         in (part @ drop (length part) buf, int (length part), None)))\<rparr>"

text \<open>
  A downstream component whose reads fail: no byte is written, the count is 0 and
  the error is set.
\<close>

definition failingComponent :: "nat list \<Rightarrow> NextComponent" where
  "failingComponent content =
     \<lparr>GetAttr = (\<lambda>name. Inr (int (length content))),
      NextReadInBuffer = (\<lambda>path off buf. (buf, 0, Some (NextError ''read failed'')))\<rparr>"

section \<open>Observations\<close>

text \<open>
  What the caller of an operation sees: its results without the state of the cache.
\<close>

definition outcome :: "(BlockCache \<times> 'a) option \<Rightarrow> 'a option" where
  "outcome r = map_option snd r"

text \<open>
  The state an operation leaves, for an operation that returns.
\<close>

definition state_after :: "(BlockCache \<times> 'a) option \<Rightarrow> BlockCache" where
  "state_after r = (case r of Some (s, x) \<Rightarrow> s | None \<Rightarrow> NewBlockCacheComponent)"

text \<open>
  The number of blocks the pool can still hand out: the free ones and the ones it
  may still allocate.
\<close>

definition free_blocks :: "BlockPool \<Rightarrow> nat" where
  "free_blocks p = length (blocksCh p) + (maxBlocks p - blocks p)"

text \<open>
  The tokens waiting in the channel of a block.
\<close>

definition tokens_of :: "Block \<Rightarrow> nat list" where
  "tokens_of b = (case state b of None \<Rightarrow> [] | Some ch \<Rightarrow> tokens ch)"

text \<open>
  The blocks a handle maps: the blocks of the work items in its bag, under every key
  other than \<open>"#"\<close>.
\<close>

fun mapped_blocks :: "(string \<times> hvalue) list \<Rightarrow> nat list" where
  "mapped_blocks [] = []"
| "mapped_blocks ((key, Item w) # rest) =
     (if key \<noteq> ''#'' then block w # mapped_blocks rest else mapped_blocks rest)"
| "mapped_blocks ((key, U64 v) # rest) = mapped_blocks rest"

text \<open>
  An entry of the bag as the block cache writes it: a \<open>uint64\<close> only under
  \<open>"#"\<close>.
\<close>

fun typed_entry :: "string \<times> hvalue \<Rightarrow> bool" where
  "typed_entry (key, Item w) = True"
| "typed_entry (key, U64 v) = (key = ''#'')"

text \<open>
  The work item a handle holds for a block index.
\<close>

definition item_at :: "BlockCache \<Rightarrow> nat \<Rightarrow> nat \<Rightarrow> workItem" where
  "item_at s hp m =
     (case GetValue (handles s hp) (Sprintf m) of
        Some (Item w) \<Rightarrow> w
      | _ \<Rightarrow> \<lparr>handle = hp, block = 0\<rparr>)"

text \<open>
  The number of blocks of a file: its size over the block size, rounded up.
\<close>

definition block_count :: "int \<Rightarrow> nat \<Rightarrow> nat" where
  "block_count sz bsize = nat ((sz + int bsize - 1) div int bsize)"

section \<open>Scenarios\<close>

text \<open>
  A file of 8 bytes behind a cache with blocks of 4 bytes, a pool of one block and
  a prefetch count of 1, after \<open>OpenFile\<close>.
\<close>

definition file8 :: NextComponent where
  "file8 = fileComponent [0, 1, 2, 3, 4, 5, 6, 7]"

definition open8 :: BlockCache where
  "open8 = fst (OpenFile file8 (cacheOf 4 4 1) ''f'')"

text \<open>
  A file of 16 bytes behind a cache with blocks of 4 bytes, a pool of four blocks
  and a prefetch count of 4, after \<open>OpenFile\<close>.
\<close>

definition file16 :: NextComponent where
  "file16 = fileComponent [0, 1, 2, 3, 4, 5, 6, 7, 8, 9, 10, 11, 12, 13, 14, 15]"

definition open16 :: BlockCache where
  "open16 = fst (OpenFile file16 (cacheOf 4 16 4) ''f'')"

text \<open>
  The same file behind a downstream component whose reads fail, a cache with blocks
  of 4 bytes, a pool of four blocks and a prefetch count of 1, after \<open>OpenFile\<close>.
\<close>

definition failing16 :: NextComponent where
  "failing16 = failingComponent [0, 1, 2, 3, 4, 5, 6, 7, 8, 9, 10, 11, 12, 13, 14, 15]"

definition openFailing :: BlockCache where
  "openFailing = fst (OpenFile failing16 (cacheOf 4 16 1) ''f'')"

text \<open>
  The file of 16 bytes after a first reader has taken block 3.
\<close>

definition read16 :: BlockCache where
  "read16 = state_after (getBlock file16 open16 0 12)"

text \<open>
  A file of 10 bytes, for a cache with blocks of 4 bytes.
\<close>

definition file10 :: NextComponent where
  "file10 = fileComponent [0, 1, 2, 3, 4, 5, 6, 7, 8, 9]"

text \<open>
  The file of 16 bytes behind a cache with a pool of five blocks and a prefetch
  count of 4, after \<open>OpenFile\<close> and after the two readers of block 3.
\<close>

definition open16five :: BlockCache where
  "open16five = fst (OpenFile file16 (cacheOf 4 20 4) ''f'')"

definition evicted16 :: BlockCache where
  "evicted16 = state_after (getBlock file16 (state_after (getBlock file16 open16five 0 12)) 0 12)"

text \<open>
  The file of 16 bytes behind a cache with a pool of four blocks and a prefetch
  count of 1, after \<open>OpenFile\<close>.
\<close>

definition open16one :: BlockCache where
  "open16one = fst (OpenFile file16 (cacheOf 4 16 1) ''f'')"

section \<open>Decimal keys\<close>

lemma Sprintf_not_Nil: "Sprintf n \<noteq> []"
  by (subst Sprintf.simps) simp

lemma digit_code: "d < 10 \<Longrightarrow> (of_char (digit d) :: nat) = 48 + d"
proof -
  assume "d < 10"
  then have "d \<in> {0, 1, 2, 3, 4, 5, 6, 7, 8, 9}" by auto
  then show ?thesis by (auto simp: digit_def)
qed

lemma digit_inj:
  assumes "a < 10" and "b < 10" and "digit a = digit b"
  shows "a = b"
proof -
  have "(of_char (digit a) :: nat) = of_char (digit b)" using assms(3) by simp
  then have "48 + a = 48 + b" by (simp only: digit_code [OF assms(1)] digit_code [OF assms(2)])
  then show ?thesis by simp
qed

lemma digit_not_hash: "d < 10 \<Longrightarrow> digit d \<noteq> CHR ''#''"
  using digit_code [of d] by auto

lemma Sprintf_not_hash: "Sprintf n \<noteq> ''#''"
proof (cases "n < 10")
  case True
  then show ?thesis by (subst Sprintf.simps) (simp add: digit_not_hash)
next
  case False
  then show ?thesis
    by (subst Sprintf.simps) (simp add: digit_not_hash Sprintf_not_Nil)
qed

lemma Sprintf_inj: "Sprintf a = Sprintf b \<Longrightarrow> a = b"
proof (induction a arbitrary: b rule: Sprintf.induct)
  case (1 a)
  show ?case
  proof (cases "a < 10")
    case True
    then have sa: "Sprintf a = [digit a]" by (subst Sprintf.simps) simp
    show ?thesis
    proof (cases "b < 10")
      case b: True
      then have "Sprintf b = [digit b]" by (subst Sprintf.simps) simp
      with sa "1.prems" have "digit a = digit b" by simp
      with True b show ?thesis by (rule digit_inj)
    next
      case b: False
      then have "Sprintf b = Sprintf (b div 10) @ [digit (b mod 10)]"
        by (subst Sprintf.simps) simp
      with sa "1.prems" have "Sprintf (b div 10) = []" by simp
      then show ?thesis by (simp add: Sprintf_not_Nil)
    qed
  next
    case False
    then have sa: "Sprintf a = Sprintf (a div 10) @ [digit (a mod 10)]"
      by (subst Sprintf.simps) simp
    show ?thesis
    proof (cases "b < 10")
      case b: True
      then have "Sprintf b = [digit b]" by (subst Sprintf.simps) simp
      with sa "1.prems" have "Sprintf (a div 10) = []" by simp
      then show ?thesis by (simp add: Sprintf_not_Nil)
    next
      case b: False
      then have "Sprintf b = Sprintf (b div 10) @ [digit (b mod 10)]"
        by (subst Sprintf.simps) simp
      with sa "1.prems" have e: "Sprintf (a div 10) = Sprintf (b div 10)"
        and d: "digit (a mod 10) = digit (b mod 10)" by simp_all
      from "1.IH" [OF False e] have "a div 10 = b div 10" .
      moreover have "a mod 10 = b mod 10" by (rule digit_inj [OF _ _ d]) simp_all
      ultimately show ?thesis by (metis div_mult_mod_eq)
    qed
  qed
qed

lemma Sprintf_eq_iff [simp]: "Sprintf a = Sprintf b \<longleftrightarrow> a = b"
  using Sprintf_inj by auto

section \<open>ReadInBuffer\<close>

text \<open>
  C9. A call of \<open>ReadInBuffer\<close> with an empty buffer returns 0 and no error, whatever
  the offset is (also at or beyond the size of the file), and leaves the cache, its
  pool, its queues and the handle as they were.
\<close>

theorem ReadInBuffer_empty: "ReadInBuffer nc s hp Offset [] = Some (s, [], 0, None)"
  by (simp add: ReadInBuffer_def ReadInBuffer_loop.simps)

lemma iterations_loop:
  "iterations nc hp st st1 \<Longrightarrow> ReadInBuffer_loop nc hp st = ReadInBuffer_loop nc hp st1"
proof (induction rule: iterations.induct)
  case (start st)
  show ?case by simp
next
  case (again st s Offset Data dataRead st1)
  have "ReadInBuffer_loop nc hp (s, Offset, Data, dataRead) = ReadInBuffer_loop nc hp st1"
    using again.hyps(2,3) by (subst ReadInBuffer_loop.simps) simp
  with again.IH show ?case by simp
qed

text \<open>
  C8. When \<open>getBlock\<close> fails with an error other than \<open>EOF\<close> in an iteration that
  earlier iterations of the same call have reached with bytes already copied
  (\<open>0 < dataRead\<close>), the call returns the count 0 with the error; the buffer keeps
  the bytes copied.
\<close>

theorem ReadInBuffer_error_count:
  assumes "iterations nc hp (s0, Offset0, Data0, 0) (s, Offset, Data, dataRead)"
    and "0 < dataRead" and "dataRead < length Data"
    and "getBlock nc s hp (uint64 Offset) = Some (s1, Inl err)"
    and "err \<noteq> EOF" and "err \<noteq> Panic"
  shows "ReadInBuffer nc s0 hp Offset0 Data0 = Some (s1, Data, 0, Some (GetBlockFailed err))"
proof -
  have "ReadInBuffer_body nc s hp Offset Data dataRead =
          Some (Inl (s1, Offset, Data, 0, Some (GetBlockFailed err)))"
    using assms(4,5,6) by (simp add: ReadInBuffer_body_def)
  then have "ReadInBuffer_loop nc hp (s, Offset, Data, dataRead) =
          Some (s1, Offset, Data, 0, Some (GetBlockFailed err))"
    using assms(3) by (subst ReadInBuffer_loop.simps) simp
  then show ?thesis
    using iterations_loop [OF assms(1)] by (simp add: ReadInBuffer_def)
qed

theorem ReadInBuffer_error_count_witness:
  "outcome (ReadInBuffer file8 open8 0 0 [99, 99, 99, 99, 99, 99, 99, 99]) =
     Some ([0, 1, 2, 3, 99, 99, 99, 99], 0, Some (GetBlockFailed DownloadScheduleFailed))"
proof -
  let ?D = "[99, 99, 99, 99, 99, 99, 99, 99] :: nat list"
  let ?B = "ReadInBuffer_body file8 open8 0 0 ?D 0"
  let ?s = "state_after (map_option (\<lambda>x. (fst (projr x), ())) ?B)"
  have "map_option (map_sum (\<lambda>x. ()) snd) ?B = Some (Inr (4, [0, 1, 2, 3, 99, 99, 99, 99], 4))"
    by code_simp
  then have b: "?B = Some (Inr (?s, 4, [0, 1, 2, 3, 99, 99, 99, 99], 4))"
    by (cases ?B) (auto simp: state_after_def map_sum_def split: sum.splits)
  have it: "iterations file8 0 (open8, 0, ?D, 0) (?s, 4, [0, 1, 2, 3, 99, 99, 99, 99], 4)"
    by (rule iterations.again [OF iterations.start _ b]) simp
  let ?G = "getBlock file8 ?s 0 (uint64 4)"
  have "outcome ?G = Some (Inl DownloadScheduleFailed)"
    by code_simp
  then have g: "?G = Some (state_after ?G, Inl DownloadScheduleFailed)"
    by (cases ?G) (auto simp: state_after_def outcome_def)
  show ?thesis
    using ReadInBuffer_error_count [OF it _ _ g] by (simp add: outcome_def)
qed

text \<open>
  C1. The code at a read of 12 bytes from offset 0 that takes three iterations:
  the first two copy blocks 0 and 1; the offset then stands at 4 + 8 = 12 and not
  at 8, so the third iteration copies block 3. The bytes 8 to 11 returned are the
  bytes 12 to 15 of the file.
\<close>

theorem ReadInBuffer_three_iterations:
  "outcome (ReadInBuffer file16 open16 0 0 [99, 99, 99, 99, 99, 99, 99, 99, 99, 99, 99, 99]) =
     Some ([0, 1, 2, 3, 4, 5, 6, 7, 12, 13, 14, 15], 12, None)"
  by code_simp

text \<open>
  C2. The code at a download whose downstream read fails with an error and zero
  bytes: the item is scheduled again, twice, and the block is marked ready all the
  same (its two tokens are waiting); a reader of the block then gets the four bytes
  of the buffer that was never filled, with no error.
\<close>

theorem download_failure_marks_ready:
  "map_option (\<lambda>s. (tokens_of (heap s 0), threadPool s)) (worker_step failing16 openFailing) =
     Some ([1, 2], \<lparr>worker = 1, priorityCh = [],
                    normalCh = [\<lparr>handle = 0, block = 0\<rparr>, \<lparr>handle = 0, block = 0\<rparr>]\<rparr>)
   \<and> outcome (ReadInBuffer failing16 openFailing 0 0 [99, 99, 99, 99]) = Some ([0, 0, 0, 0], 4, None)"
  by code_simp

section \<open>Pointers\<close>

lemma heap_heap_upd [simp]: "heap (heap_upd s b blk) b' = (if b' = b then blk else heap s b')"
  by (simp add: heap_def heap_upd_def update_conv')

lemma handles_handles_upd [simp]: "handles (handles_upd s hp h) hp' = (if hp' = hp then h else handles s hp')"
  by (simp add: handles_def handles_upd_def update_conv')

lemma handles_heap_upd [simp]: "handles (heap_upd s b blk) = handles s"
  by (rule ext) (simp add: handles_def heap_upd_def)

lemma heap_handles_upd [simp]: "heap (handles_upd s hp h) = heap s"
  by (rule ext) (simp add: heap_def handles_upd_def)

lemma heap_upd_fields [simp]:
  "blockPool (heap_upd s b blk) = blockPool s"
  "threadPool (heap_upd s b blk) = threadPool s"
  "prefetch (heap_upd s b blk) = prefetch s"
  "nhandles (heap_upd s b blk) = nhandles s"
  "spawned (heap_upd s b blk) = spawned s"
  by (simp_all add: heap_upd_def)

lemma handles_upd_fields [simp]:
  "blockPool (handles_upd s hp h) = blockPool s"
  "threadPool (handles_upd s hp h) = threadPool s"
  "prefetch (handles_upd s hp h) = prefetch s"
  "nhandles (handles_upd s hp h) = nhandles s"
  "spawned (handles_upd s hp h) = spawned s"
  by (simp_all add: handles_upd_def)

lemma heap_record_upd [simp]:
  "heap (s\<lparr>blockPool := p\<rparr>) = heap s"
  "heap (s\<lparr>threadPool := tp\<rparr>) = heap s"
  "heap (s\<lparr>spawned := sp\<rparr>) = heap s"
  "heap (s\<lparr>nhandles := n\<rparr>) = heap s"
  by (rule ext, simp add: heap_def)+

lemma handles_record_upd [simp]:
  "handles (s\<lparr>blockPool := p\<rparr>) = handles s"
  "handles (s\<lparr>threadPool := tp\<rparr>) = handles s"
  "handles (s\<lparr>spawned := sp\<rparr>) = handles s"
  "handles (s\<lparr>nhandles := n\<rparr>) = handles s"
  by (rule ext, simp add: handles_def)+

section \<open>End of file\<close>











section \<open>CloseFile\<close>

lemma Release_fields [simp]:
  "blocksCh (blockPool (Release s b)) = blocksCh (blockPool s) @ [b]"
  "handles (Release s b) = handles s"
  by (simp_all add: Release_def)

lemma RemoveValue_pool [simp]: "blockPool (RemoveValue s hp key) = blockPool s"
  by (simp add: RemoveValue_def)

lemma Cleanup_releases:
  "list_all typed_entry es \<Longrightarrow>
   \<exists>s'. CleanupWithCallback CloseFile_callback s hp es = (s', None) \<and>
        blocksCh (blockPool s') = blocksCh (blockPool s) @ mapped_blocks es"
proof (induction es arbitrary: s)
  case Nil
  show ?case by simp
next
  case (Cons e es)
  obtain key v where e: "e = (key, v)" by (cases e)
  from Cons.prems have rest: "list_all typed_entry es" by simp
  show ?case
  proof (cases v)
    case (Item w)
    show ?thesis
    proof (cases "key = ''#''")
      case True
      with Cons.IH [OF rest, of "RemoveValue s hp key"] e Item show ?thesis
        by (simp add: CloseFile_callback_def)
    next
      case False
      with Cons.IH [OF rest, of "RemoveValue (Release s (block w)) hp key"] e Item show ?thesis
        by (simp add: CloseFile_callback_def)
    qed
  next
    case (U64 x)
    with Cons.prems e have "key = ''#''" by simp
    with Cons.IH [OF rest, of "RemoveValue s hp key"] e U64 show ?thesis
      by (simp add: CloseFile_callback_def)
  qed
qed

lemma mapped_blocks_mem:
  "(key, Item w) \<in> set es \<Longrightarrow> key \<noteq> ''#'' \<Longrightarrow> block w \<in> set (mapped_blocks es)"
  by (induction es rule: mapped_blocks.induct) auto

text \<open>
  C7. \<open>CloseFile\<close> on a handle whose bag holds work items under the keys other than
  \<open>"#"\<close> returns without error and pushes the block of every one of them onto
  the free list of the pool: every block the handle maps is back in the pool.
\<close>

theorem CloseFile_releases:
  assumes "list_all typed_entry (hvalues (handles s hp))"
  shows "\<exists>s'. CloseFile s hp = (s', None) \<and>
           blocksCh (blockPool s') = blocksCh (blockPool s) @ mapped_blocks (hvalues (handles s hp)) \<and>
           (\<forall>key w. GetValue (handles s hp) key = Some (Item w) \<longrightarrow> key \<noteq> ''#'' \<longrightarrow>
              block w \<in> set (blocksCh (blockPool s')))"
proof -
  from Cleanup_releases [OF assms, of s hp] obtain s' where
    c: "CloseFile s hp = (s', None)" and
    f: "blocksCh (blockPool s') = blocksCh (blockPool s) @ mapped_blocks (hvalues (handles s hp))"
    by (auto simp: CloseFile_def)
  have "block w \<in> set (blocksCh (blockPool s'))"
    if "GetValue (handles s hp) key = Some (Item w)" and "key \<noteq> ''#''" for key w
  proof -
    from that(1) have "(key, Item w) \<in> set (hvalues (handles s hp))"
      by (simp add: GetValue_def map_of_SomeD)
    with that(2) f show ?thesis by (simp add: mapped_blocks_mem)
  qed
  with c f show ?thesis by blast
qed

theorem CloseFile_releases_witness:
  "blocksCh (blockPool open16) = [] \<and>
   GetValue (handles open16 0) ''2'' = Some (Item \<lparr>handle = 0, block = 2\<rparr>) \<and>
   blocksCh (blockPool (fst (CloseFile open16 0))) = [0, 1, 2, 3]"
proof -
  have t: "list_all typed_entry (hvalues (handles open16 0))" by code_simp
  have m: "mapped_blocks (hvalues (handles open16 0)) = [0, 1, 2, 3]" by code_simp
  have b: "blocksCh (blockPool open16) = []" by code_simp
  have g: "GetValue (handles open16 0) ''2'' = Some (Item \<lparr>handle = 0, block = 2\<rparr>)" by code_simp
  from CloseFile_releases [OF t] obtain s' where
    "CloseFile open16 0 = (s', None)" and
    "blocksCh (blockPool s') = blocksCh (blockPool open16) @ mapped_blocks (hvalues (handles open16 0))"
    by blast
  with m b g show ?thesis by simp
qed

section \<open>The second reader\<close>

lemma recv_token:
  "tokens_of blk = t # ts \<Longrightarrow>
     \<exists>blk'. recv blk = Some (blk', t) \<and> id_blk blk' = id_blk blk"
  by (auto simp: tokens_of_def recv_def split: option.splits)

lemma await_token:
  assumes "tokens_of (heap s b) = t # ts"
  shows "\<exists>blk'. await nc s b = Some (heap_upd s b blk', t) \<and> id_blk blk' = id_blk (heap s b)"
proof -
  from recv_token [OF assms] obtain blk' where
    "recv (heap s b) = Some (blk', t)" and "id_blk blk' = id_blk (heap s b)" by blast
  then have "await nc s b = Some (heap_upd s b blk', t) \<and> id_blk blk' = id_blk (heap s b)"
    by (subst await.simps) simp
  then show ?thesis by blast
qed

lemma Unblock_id [simp]: "id_blk (fst (Unblock blk)) = id_blk blk"
  by (simp add: Unblock_def split: option.splits)

lemma GetValue_RemoveValue [simp]:
  "GetValue (handles (RemoveValue s hp key) hp) key = None"
  by (simp add: GetValue_def RemoveValue_def delete_conv')

lemma secondReader_evicts:
  assumes "secondReader s hp b = (s', None)" and "3 \<le> id_blk (heap s b)"
  shows "GetValue (handles s' hp) (Sprintf (id_blk (heap s b) - 3)) = None"
  using assms
  by (auto simp: secondReader_def Let_def split: option.splits hvalue.splits)

text \<open>
  C4. A reader that finds the block of index \<open>k\<close> on the handle (carrying the id
  \<open>k\<close>, as \<open>lineupDownload\<close> stored it) and receives the token 2 from it is its second
  reader; when its \<open>getBlock\<close> returns the block and \<open>k \<ge> 3\<close>, the handle has no
  entry under the index \<open>k - 3\<close>.
\<close>

theorem getBlock_second_reader_evicts:
  assumes "getBlock nc s hp readoffset = Some (s', Inr b)"
    and "GetValue (handles s hp) (Sprintf (getBlockIndex s readoffset)) = Some (Item w)"
    and "tokens_of (heap s (block w)) = 2 # ts"
    and "id_blk (heap s (block w)) = getBlockIndex s readoffset"
    and "3 \<le> getBlockIndex s readoffset"
  shows "GetValue (handles s' hp) (Sprintf (getBlockIndex s readoffset - 3)) = None"
proof -
  let ?k = "getBlockIndex s readoffset"
  have f: "findItem s hp readoffset = (s, Inr (Item w))"
    using assms(2) by (simp add: findItem_def)
  from await_token [OF assms(3), of nc] obtain blk' where
    a: "await nc s (block w) = Some (heap_upd s (block w) blk', 2)"
    and i: "id_blk blk' = id_blk (heap s (block w))" by blast
  let ?s2 = "heap_upd s (block w) blk'"
  from assms(1) f a have r: "secondReader ?s2 hp (block w) = (s', None)"
    by (auto simp: getBlock_def split: if_splits prod.splits option.splits)
  have "id_blk (heap ?s2 (block w)) = ?k" using i assms(4) by simp
  with secondReader_evicts [OF r] assms(5) show ?thesis by simp
qed

theorem getBlock_second_reader_evicts_witness:
  "GetValue (handles read16 0) ''0'' = Some (Item \<lparr>handle = 0, block = 0\<rparr>) \<and>
   outcome (getBlock file16 read16 0 12) = Some (Inr 3) \<and>
   GetValue (handles (state_after (getBlock file16 read16 0 12)) 0) ''0'' = None"
proof -
  let ?G = "getBlock file16 read16 0 12"
  have o: "outcome ?G = Some (Inr 3)" by code_simp
  then have g: "?G = Some (state_after ?G, Inr 3)"
    by (cases ?G) (auto simp: state_after_def outcome_def)
  have k: "getBlockIndex read16 12 = 3" by code_simp
  have v: "GetValue (handles read16 0) (Sprintf (getBlockIndex read16 12)) = Some (Item \<lparr>handle = 0, block = 3\<rparr>)"
    by code_simp
  have t: "tokens_of (heap read16 (block \<lparr>handle = 0, block = 3\<rparr>)) = 2 # []" by code_simp
  have i: "id_blk (heap read16 (block \<lparr>handle = 0, block = 3\<rparr>)) = getBlockIndex read16 12" by code_simp
  have b: "GetValue (handles read16 0) ''0'' = Some (Item \<lparr>handle = 0, block = 0\<rparr>)" by code_simp
  have s: "Sprintf 0 = ''0''" by code_simp
  from getBlock_second_reader_evicts [OF g v t i] k s
  have "GetValue (handles (state_after ?G) 0) ''0'' = None" by simp
  with o b show ?thesis by simp
qed

section \<open>Lining up a download\<close>

lemma GetValue_SetValue [simp]:
  "GetValue (handles (SetValue s hp key v) hp) key' =
     (if key' = key then Some v else GetValue (handles s hp) key')"
  by (simp add: GetValue_def SetValue_def update_conv')

lemma SetValue_fields [simp]:
  "blockPool (SetValue s hp key v) = blockPool s"
  "threadPool (SetValue s hp key v) = threadPool s"
  "prefetch (SetValue s hp key v) = prefetch s"
  "heap (SetValue s hp key v) = heap s"
  "Size (handles (SetValue s hp key v) hp') = Size (handles s hp')"
  by (simp_all add: SetValue_def)

lemma Schedule_fields [simp]:
  "blockPool (Schedule s u item) = blockPool s"
  "prefetch (Schedule s u item) = prefetch s"
  "heap (Schedule s u item) = heap s"
  "handles (Schedule s u item) = handles s"
  "priorityCh (threadPool (Schedule s u item)) =
     (if u then priorityCh (threadPool s) @ [item] else priorityCh (threadPool s))"
  "normalCh (threadPool (Schedule s u item)) =
     (if u then normalCh (threadPool s) else normalCh (threadPool s) @ [item])"
  by (simp_all add: Schedule_def Let_def)

lemma Get_Some:
  assumes "Get s = (s1, Some b)"
  shows "free_blocks (blockPool s1) + 1 = free_blocks (blockPool s)"
    and "blockSize (blockPool s1) = blockSize (blockPool s)"
    and "handles s1 = handles s" and "threadPool s1 = threadPool s" and "prefetch s1 = prefetch s"
  using assms
  by (auto simp: Get_def Let_def free_blocks_def split: list.splits if_splits sum.splits)

lemma Get_None:
  assumes "Get s = (s1, None)"
  shows "s1 = s" and "blocksCh (blockPool s) = []"
  using assms
  by (auto simp: Get_def Let_def split: list.splits if_splits sum.splits)

lemma lineupDownload_None:
  assumes "lineupDownload s hp offset = (s', None)"
  shows "free_blocks (blockPool s') + 1 = free_blocks (blockPool s)"
    and "blockSize (blockPool s') = blockSize (blockPool s)"
    and "prefetch s' = prefetch s"
    and "Size (handles s' hp) = Size (handles s hp)"
    and "\<exists>w. (\<forall>key. GetValue (handles s' hp) key =
             (if key = Sprintf (offset div blockSize (blockPool s)) then Some (Item w)
              else GetValue (handles s hp) key)) \<and>
           priorityCh (threadPool s') =
             (if offset = 0 then priorityCh (threadPool s) @ [w] else priorityCh (threadPool s)) \<and>
           normalCh (threadPool s') =
             (if offset = 0 then normalCh (threadPool s) else normalCh (threadPool s) @ [w])"
proof -
  from assms obtain s1 b where g: "Get s = (s1, Some b)"
    by (cases "Get s") (auto simp: lineupDownload_def split: option.splits)
  note G = Get_Some [OF g]
  from assms g have nz: "blockSize (blockPool s1) \<noteq> 0"
    by (auto simp: lineupDownload_def split: if_splits)
  let ?w = "\<lparr>handle = hp, block = b\<rparr>"
  let ?i = "offset div blockSize (blockPool s1)"
  let ?s2 = "heap_upd s1 b ((heap s1 b)\<lparr>id_blk := ?i\<rparr>)"
  from assms g nz have s': "s' = Schedule (SetValue ?s2 hp (Sprintf ?i) (Item ?w)) (offset = 0) ?w"
    by (simp add: lineupDownload_def Let_def)
  show "free_blocks (blockPool s') + 1 = free_blocks (blockPool s)"
    using G(1) by (simp add: s')
  show "blockSize (blockPool s') = blockSize (blockPool s)"
    using G(2) by (simp add: s')
  show "prefetch s' = prefetch s"
    using G(5) by (simp add: s')
  show "Size (handles s' hp) = Size (handles s hp)"
    using G(3) by (simp add: s')
  have "(\<forall>key. GetValue (handles s' hp) key =
             (if key = Sprintf (offset div blockSize (blockPool s)) then Some (Item ?w)
              else GetValue (handles s hp) key)) \<and>
           priorityCh (threadPool s') =
             (if offset = 0 then priorityCh (threadPool s) @ [?w] else priorityCh (threadPool s)) \<and>
           normalCh (threadPool s') =
             (if offset = 0 then normalCh (threadPool s) else normalCh (threadPool s) @ [?w])"
    using G(2,3,4) by (simp add: s')
  then show "\<exists>w. (\<forall>key. GetValue (handles s' hp) key =
             (if key = Sprintf (offset div blockSize (blockPool s)) then Some (Item w)
              else GetValue (handles s hp) key)) \<and>
           priorityCh (threadPool s') =
             (if offset = 0 then priorityCh (threadPool s) @ [w] else priorityCh (threadPool s)) \<and>
           normalCh (threadPool s') =
             (if offset = 0 then normalCh (threadPool s) else normalCh (threadPool s) @ [w])"
    by blast
qed

lemma lineupDownload_Some:
  assumes "lineupDownload s hp offset = (s', Some err)" and "0 < blockSize (blockPool s)"
  shows "err = PrefetchScheduleFailed" and "s' = s" and "blocksCh (blockPool s) = []"
proof -
  have "err = PrefetchScheduleFailed \<and> s' = s \<and> blocksCh (blockPool s) = []"
  proof (cases "Get s")
    case (Pair s1 r)
    show ?thesis
    proof (cases r)
      case None
      with Pair assms Get_None [of s s1] show ?thesis
        by (simp add: lineupDownload_def)
    next
      case (Some b)
      with Pair assms Get_Some(2) [of s s1 b] show ?thesis
        by (simp add: lineupDownload_def Let_def)
    qed
  qed
  then show "err = PrefetchScheduleFailed" and "s' = s" and "blocksCh (blockPool s) = []"
    by simp_all
qed

section \<open>The prefetch loop of OpenFile\<close>

lemma uint32_int: "n < 4294967296 \<Longrightarrow> uint32 (int n) = n"
  by (simp add: uint32_def)

lemma int64_int: "n < 9223372036854775808 \<Longrightarrow> int64 (int n) = int n"
  by (simp add: int64_def)

lemma add64_small: "a + b < 18446744073709551616 \<Longrightarrow> add64 a b = a + b"
proof -
  assume "a + b < 18446744073709551616"
  then have "int a + int b < 18446744073709551616" by linarith
  then show ?thesis by (simp add: add64_def)
qed

lemma OpenFile_loop_run:
  assumes "OpenFile_loop s hp i off = (s', r)"
    and "i = int n" and "off = n * blockSize (blockPool s)"
    and "0 < blockSize (blockPool s)"
    and "n \<le> prefetch s" and "prefetch s < 4294967296"
    and "(n + free_blocks (blockPool s)) * blockSize (blockPool s) < 9223372036854775808"
  shows "\<exists>j. n \<le> j \<and> free_blocks (blockPool s') + (j - n) = free_blocks (blockPool s) \<and>
      blockSize (blockPool s') = blockSize (blockPool s) \<and> prefetch s' = prefetch s \<and>
      Size (handles s' hp) = Size (handles s hp) \<and>
      (\<forall>m. n \<le> m \<and> m < j \<longrightarrow> m < prefetch s \<and> int (m * blockSize (blockPool s)) < Size (handles s hp)) \<and>
      (case r of
         Inr off' \<Rightarrow> off' = j * blockSize (blockPool s) \<and>
           \<not> (j < prefetch s \<and> int (j * blockSize (blockPool s)) < Size (handles s hp))
       | Inl err \<Rightarrow> err = PrefetchScheduleFailed \<and> blocksCh (blockPool s') = [] \<and>
           GetValue (handles s' hp) ''#'' = Some (U64 (j * blockSize (blockPool s)))) \<and>
      priorityCh (threadPool s') = priorityCh (threadPool s) @ map (item_at s' hp) [n..<min 1 j] \<and>
      normalCh (threadPool s') = normalCh (threadPool s) @ map (item_at s' hp) [max 1 n..<j] \<and>
      (\<forall>m. n \<le> m \<and> m < j \<longrightarrow> (\<exists>w. GetValue (handles s' hp) (Sprintf m) = Some (Item w))) \<and>
      (\<forall>key. key \<noteq> ''#'' \<and> (\<forall>m. n \<le> m \<longrightarrow> key \<noteq> Sprintf m) \<longrightarrow>
         GetValue (handles s' hp) key = GetValue (handles s hp) key)"
  using assms
proof (induction s hp i off arbitrary: n rule: OpenFile_loop.induct)
  case (1 s hp i off)
  let ?bs = "blockSize (blockPool s)"
  let ?sz = "Size (handles s hp)"
  note eq = "1.prems"(1) and i = "1.prems"(2) and off = "1.prems"(3) and bs = "1.prems"(4)
    and np = "1.prems"(5) and p32 = "1.prems"(6) and cap = "1.prems"(7)
  have "n * ?bs \<le> (n + free_blocks (blockPool s)) * ?bs" by simp
  with cap off have off63: "off < 9223372036854775808" by linarith
  have u: "uint32 i = n" "uint32 (int (prefetch s)) = prefetch s"
    using i np p32 by (simp_all add: uint32_int)
  have i64: "int64 (int off) = int off" using off63 by (rule int64_int)
  note unfold = OpenFile_loop.simps [of s hp i off]
  show ?case
  proof (cases "n < prefetch s \<and> int off < ?sz")
    case False
    then have "\<not> (uint32 i < uint32 (int (prefetch s)) \<and> int64 (int off) < Size (handles s hp))"
      by (simp add: u i64)
    then have "OpenFile_loop s hp i off = (s, Inr off)"
      unfolding unfold by (simp only: if_False)
    with eq have s': "s' = s" and r: "r = Inr off" by simp_all
    have "min 1 n \<le> n" by simp
    then have e1: "[n..<min 1 n] = []" by simp
    have e2: "[max 1 n..<n] = []" by simp
    show ?thesis
      apply (rule exI [of _ n])
      using False off by (auto simp add: s' r e1 e2)
  next
    case True
    let ?s1 = "SetValue s hp ''#'' (U64 off)"
    obtain s2 e where l: "lineupDownload ?s1 hp off = (s2, e)"
      by (cases "lineupDownload ?s1 hp off")
    show ?thesis
    proof (cases e)
      case (Some err)
      have bs1: "0 < blockSize (blockPool ?s1)" using bs by simp
      note L = lineupDownload_Some [OF l [unfolded Some] bs1]
      from True l Some have "OpenFile_loop s hp i off = (s2, Inl err)"
        unfolding unfold by (simp add: u i64 Let_def)
      with eq L have s': "s' = ?s1" and r: "r = Inl PrefetchScheduleFailed" by simp_all
      have "min 1 n \<le> n" by simp
      then have e1: "[n..<min 1 n] = []" by simp
      have e2: "[max 1 n..<n] = []" by simp
      show ?thesis
        apply (rule exI [of _ n])
        using L(3) off by (auto simp add: s' r e1 e2)
    next
      case None
      note L = lineupDownload_None [OF l [unfolded None]]
      have fb: "free_blocks (blockPool s2) + 1 = free_blocks (blockPool s)" using L(1) by simp
      have bs2: "blockSize (blockPool s2) = ?bs" using L(2) by simp
      have pf2: "prefetch s2 = prefetch s" using L(3) by simp
      have sz2: "Size (handles s2 hp) = ?sz" using L(4) by simp
      from L(5) obtain w where
        gv: "\<And>key. GetValue (handles s2 hp) key =
               (if key = Sprintf (off div ?bs) then Some (Item w) else GetValue (handles ?s1 hp) key)"
        and pq: "priorityCh (threadPool s2) =
               (if off = 0 then priorityCh (threadPool s) @ [w] else priorityCh (threadPool s))"
        and nq: "normalCh (threadPool s2) =
               (if off = 0 then normalCh (threadPool s) else normalCh (threadPool s) @ [w])"
        by auto
      have idx: "off div ?bs = n" using off bs by simp
      have off0: "off = 0 \<longleftrightarrow> n = 0" using off bs by simp
      have "(n + 1) * ?bs \<le> (n + free_blocks (blockPool s)) * ?bs"
        using fb by (intro mult_le_mono1) simp
      with cap have n1: "(n + 1) * ?bs < 9223372036854775808" by linarith
      then have "off + ?bs < 18446744073709551616" using off by simp
      then have a64: "add64 off (blockSize (blockPool s2)) = (n + 1) * blockSize (blockPool s2)"
        using off bs2 by (simp add: add64_small)
      from True l None eq have run: "OpenFile_loop s2 hp (i + 1) (add64 off (blockSize (blockPool s2))) = (s', r)"
        unfolding unfold by (simp add: u i64 Let_def)
      have g: "uint32 i < uint32 (int (prefetch s)) \<and> int64 (int off) < Size (handles s hp)"
        using True by (simp add: u i64)
      have "n + 1 + free_blocks (blockPool s2) = n + free_blocks (blockPool s)"
        using fb by simp
      then have cap2: "(n + 1 + free_blocks (blockPool s2)) * blockSize (blockPool s2) < 9223372036854775808"
        using cap bs2 by (simp only:)
      have i1: "i + 1 = int (n + 1)" using i by simp
      have b2: "0 < blockSize (blockPool s2)" using bs bs2 by simp
      have np1: "n + 1 \<le> prefetch s2" using True pf2 by simp
      have p2: "prefetch s2 < 4294967296" using p32 pf2 by simp
      note IH = "1.IH" [OF g refl l [unfolded None, symmetric] refl run i1 a64 b2 np1 p2 cap2]
      from IH obtain j where J: "n + 1 \<le> j \<and>
        free_blocks (blockPool s') + (j - (n + 1)) = free_blocks (blockPool s2) \<and>
        blockSize (blockPool s') = blockSize (blockPool s2) \<and>
        prefetch s' = prefetch s2 \<and>
        Size (handles s' hp) = Size (handles s2 hp) \<and>
        (\<forall>m. n + 1 \<le> m \<and> m < j \<longrightarrow>
           m < prefetch s2 \<and> int (m * blockSize (blockPool s2)) < Size (handles s2 hp)) \<and>
        (case r of
           Inr off' \<Rightarrow> off' = j * blockSize (blockPool s2) \<and>
             \<not> (j < prefetch s2 \<and> int (j * blockSize (blockPool s2)) < Size (handles s2 hp))
         | Inl err \<Rightarrow> err = PrefetchScheduleFailed \<and> blocksCh (blockPool s') = [] \<and>
             GetValue (handles s' hp) ''#'' = Some (U64 (j * blockSize (blockPool s2)))) \<and>
        priorityCh (threadPool s') = priorityCh (threadPool s2) @ map (item_at s' hp) [n + 1..<min 1 j] \<and>
        normalCh (threadPool s') = normalCh (threadPool s2) @ map (item_at s' hp) [max 1 (n + 1)..<j] \<and>
        (\<forall>m. n + 1 \<le> m \<and> m < j \<longrightarrow> (\<exists>w. GetValue (handles s' hp) (Sprintf m) = Some (Item w))) \<and>
        (\<forall>key. key \<noteq> ''#'' \<and> (\<forall>m. n + 1 \<le> m \<longrightarrow> key \<noteq> Sprintf m) \<longrightarrow>
           GetValue (handles s' hp) key = GetValue (handles s2 hp) key)"
        by (elim exE)
      from J have j1: "n + 1 \<le> j" by (elim conjE)
      from J have j2: "free_blocks (blockPool s') + (j - (n + 1)) = free_blocks (blockPool s2)"
        by (elim conjE)
      from J have j3: "blockSize (blockPool s') = ?bs \<and> prefetch s' = prefetch s \<and> Size (handles s' hp) = ?sz"
        unfolding bs2 pf2 sz2 by (elim conjE) (intro conjI)
      from J have j4: "\<forall>m. n + 1 \<le> m \<and> m < j \<longrightarrow> m < prefetch s \<and> int (m * ?bs) < ?sz"
        unfolding bs2 pf2 sz2 by (elim conjE)
      from J have j5: "case r of
                   Inr off' \<Rightarrow> off' = j * ?bs \<and> \<not> (j < prefetch s \<and> int (j * ?bs) < ?sz)
                 | Inl err \<Rightarrow> err = PrefetchScheduleFailed \<and> blocksCh (blockPool s') = [] \<and>
                     GetValue (handles s' hp) ''#'' = Some (U64 (j * ?bs))"
        unfolding bs2 pf2 sz2 by (elim conjE)
      from J have j6: "priorityCh (threadPool s') = priorityCh (threadPool s2) @ map (item_at s' hp) [n + 1..<min 1 j]"
        by (elim conjE)
      from J have j7: "normalCh (threadPool s') = normalCh (threadPool s2) @ map (item_at s' hp) [max 1 (n + 1)..<j]"
        by (elim conjE)
      from J have j8: "\<forall>m. n + 1 \<le> m \<and> m < j \<longrightarrow> (\<exists>w. GetValue (handles s' hp) (Sprintf m) = Some (Item w))"
        by (elim conjE)
      from J have j9: "\<forall>key. key \<noteq> ''#'' \<and> (\<forall>m. n + 1 \<le> m \<longrightarrow> key \<noteq> Sprintf m) \<longrightarrow>
                   GetValue (handles s' hp) key = GetValue (handles s2 hp) key"
        by (elim conjE)
      have "Sprintf n \<noteq> ''#'' \<and> (\<forall>m. n + 1 \<le> m \<longrightarrow> Sprintf n \<noteq> Sprintf m)"
        by (simp add: Sprintf_not_hash)
      with j9 have "GetValue (handles s' hp) (Sprintf n) = GetValue (handles s2 hp) (Sprintf n)"
        by blast
      then have wn: "GetValue (handles s' hp) (Sprintf n) = Some (Item w)"
        using gv [of "Sprintf n"] idx by simp
      then have ia: "item_at s' hp n = w" by (simp add: item_at_def)
      have c1: "n \<le> j" using j1 by simp
      have c2: "free_blocks (blockPool s') + (j - n) = free_blocks (blockPool s)"
        using j1 j2 fb by simp
      have c4: "\<forall>m. n \<le> m \<and> m < j \<longrightarrow> m < prefetch s \<and> int (m * ?bs) < ?sz"
      proof (intro allI impI)
        fix m assume m: "n \<le> m \<and> m < j"
        show "m < prefetch s \<and> int (m * ?bs) < ?sz"
        proof (cases "m = n")
          case True
          with \<open>n < prefetch s \<and> int off < ?sz\<close> off show ?thesis by simp
        next
          case False
          with m j4 show ?thesis by simp
        qed
      qed
      have e6: "[n + 1..<min 1 j] = []" by simp
      have c6: "priorityCh (threadPool s') = priorityCh (threadPool s) @ map (item_at s' hp) [n..<min 1 j]"
      proof (cases "n = 0")
        case True
        with j1 have "[n..<min 1 j] = [0]" by (simp add: min_def)
        with j6 e6 pq off0 True ia show ?thesis by simp
      next
        case False
        then have "[n..<min 1 j] = []" by simp
        with j6 e6 pq off0 False show ?thesis by simp
      qed
      have c7: "normalCh (threadPool s') = normalCh (threadPool s) @ map (item_at s' hp) [max 1 n..<j]"
      proof (cases "n = 0")
        case True
        with j7 nq off0 show ?thesis by simp
      next
        case False
        then have "max 1 n = n" "max 1 (n + 1) = n + 1" by simp_all
        moreover have "[n..<j] = n # [n + 1..<j]" using j1 by (simp add: upt_conv_Cons)
        ultimately show ?thesis using j7 nq off0 False ia by simp
      qed
      have c8: "\<forall>m. n \<le> m \<and> m < j \<longrightarrow> (\<exists>w. GetValue (handles s' hp) (Sprintf m) = Some (Item w))"
      proof (intro allI impI)
        fix m assume m: "n \<le> m \<and> m < j"
        show "\<exists>w. GetValue (handles s' hp) (Sprintf m) = Some (Item w)"
        proof (cases "m = n")
          case True
          with wn show ?thesis by simp
        next
          case False
          with m j8 show ?thesis by simp
        qed
      qed
      have c9: "\<forall>key. key \<noteq> ''#'' \<and> (\<forall>m. n \<le> m \<longrightarrow> key \<noteq> Sprintf m) \<longrightarrow>
         GetValue (handles s' hp) key = GetValue (handles s hp) key"
      proof (intro allI impI)
        fix key assume k: "key \<noteq> ''#'' \<and> (\<forall>m. n \<le> m \<longrightarrow> key \<noteq> Sprintf m)"
        then have "key \<noteq> ''#'' \<and> (\<forall>m. n + 1 \<le> m \<longrightarrow> key \<noteq> Sprintf m)" by simp
        with j9 have "GetValue (handles s' hp) key = GetValue (handles s2 hp) key"
          by blast
        also have "\<dots> = GetValue (handles ?s1 hp) key"
          using k gv [of key] idx by simp
        also have "\<dots> = GetValue (handles s hp) key" using k by simp
        finally show "GetValue (handles s' hp) key = GetValue (handles s hp) key" .
      qed
      show ?thesis
        apply (rule exI [of _ j])
        using c1 c2 j3 c4 j5 c6 c7 c8 c9 by simp
    qed
  qed
qed

lemma int_le_div_iff:
  fixes a x B :: int
  assumes "0 < B"
  shows "a \<le> x div B \<longleftrightarrow> a * B \<le> x"
proof
  assume "a \<le> x div B"
  then have "a * B \<le> (x div B) * B" using assms by (simp add: mult_right_mono)
  also have "\<dots> \<le> x"
  proof -
    have "x = (x div B) * B + x mod B" by simp
    moreover have "0 \<le> x mod B" using assms by simp
    ultimately show ?thesis by linarith
  qed
  finally show "a * B \<le> x" .
next
  assume "a * B \<le> x"
  then have "(a * B) div B \<le> x div B" using assms by (rule zdiv_mono1)
  then show "a \<le> x div B" using assms by simp
qed

lemma block_count_less:
  assumes "0 < bsize"
  shows "int (m * bsize) < sz \<longleftrightarrow> m < block_count sz bsize"
proof -
  let ?B = "int bsize"
  have B: "0 < ?B" using assms by simp
  have "m < block_count sz bsize \<longleftrightarrow> int m < (sz + ?B - 1) div ?B"
    by (auto simp: block_count_def)
  also have "\<dots> \<longleftrightarrow> int m + 1 \<le> (sz + ?B - 1) div ?B" by auto
  also have "\<dots> \<longleftrightarrow> (int m + 1) * ?B \<le> sz + ?B - 1"
    using B by (rule int_le_div_iff)
  also have "\<dots> \<longleftrightarrow> int m * ?B < sz" by (auto simp add: algebra_simps)
  finally show ?thesis by simp
qed

lemma first_failure_is_min:
  assumes "\<forall>m<j. m < p \<and> m < (c::nat)" and "\<not> (j < p \<and> j < c)"
  shows "j = min p c"
proof -
  have "j \<le> min p c"
  proof (cases j)
    case 0
    then show ?thesis by simp
  next
    case (Suc m)
    with assms(1) have "m < p \<and> m < c" by simp
    with Suc show ?thesis by simp
  qed
  moreover from assms(2) have "min p c \<le> j" by (auto simp: min_def)
  ultimately show ?thesis by (simp add: min_def split: if_splits)
qed

lemma item_at_SetValue_hash [simp]:
  "item_at (SetValue s hp ''#'' v) hp m = item_at s hp m"
  by (simp add: item_at_def Sprintf_not_hash)

lemma OpenFile_run:
  assumes "OpenFile nc s name = (s', r)" and "GetAttr nc name = Inr sz"
    and "0 < blockSize (blockPool s)" and "prefetch s < 4294967296"
    and "free_blocks (blockPool s) * blockSize (blockPool s) < 9223372036854775808"
  shows "\<exists>j. free_blocks (blockPool s') + j = free_blocks (blockPool s) \<and>
      (\<forall>m<j. m < prefetch s \<and> int (m * blockSize (blockPool s)) < sz) \<and>
      (case r of
         Inr hp \<Rightarrow> hp = nhandles s \<and> \<not> (j < prefetch s \<and> int (j * blockSize (blockPool s)) < sz)
       | Inl err \<Rightarrow> err = PrefetchScheduleFailed \<and> blocksCh (blockPool s') = []) \<and>
      GetValue (handles s' (nhandles s)) ''#'' = Some (U64 (j * blockSize (blockPool s))) \<and>
      priorityCh (threadPool s') = priorityCh (threadPool s) @ map (item_at s' (nhandles s)) [0..<min 1 j] \<and>
      normalCh (threadPool s') = normalCh (threadPool s) @ map (item_at s' (nhandles s)) [1..<j] \<and>
      (\<forall>m<j. \<exists>w. GetValue (handles s' (nhandles s)) (Sprintf m) = Some (Item w))"
proof -
  let ?hp = "nhandles s"
  let ?bs = "blockSize (blockPool s)"
  let ?s0 = "handles_upd (s\<lparr>nhandles := ?hp + 1\<rparr>) ?hp ((NewHandle name)\<lparr>Size := sz\<rparr>)"
  obtain s1 r1 where l: "OpenFile_loop ?s0 ?hp 0 0 = (s1, r1)"
    by (cases "OpenFile_loop ?s0 ?hp 0 0")
  have f0: "blockPool ?s0 = blockPool s" "prefetch ?s0 = prefetch s" "threadPool ?s0 = threadPool s"
    "Size (handles ?s0 ?hp) = sz"
    by simp_all
  have "\<exists>j. 0 \<le> j \<and> free_blocks (blockPool s1) + (j - 0) = free_blocks (blockPool ?s0) \<and>
      blockSize (blockPool s1) = blockSize (blockPool ?s0) \<and> prefetch s1 = prefetch ?s0 \<and>
      Size (handles s1 ?hp) = Size (handles ?s0 ?hp) \<and>
      (\<forall>m. 0 \<le> m \<and> m < j \<longrightarrow> m < prefetch ?s0 \<and> int (m * blockSize (blockPool ?s0)) < Size (handles ?s0 ?hp)) \<and>
      (case r1 of
         Inr off' \<Rightarrow> off' = j * blockSize (blockPool ?s0) \<and>
           \<not> (j < prefetch ?s0 \<and> int (j * blockSize (blockPool ?s0)) < Size (handles ?s0 ?hp))
       | Inl err \<Rightarrow> err = PrefetchScheduleFailed \<and> blocksCh (blockPool s1) = [] \<and>
           GetValue (handles s1 ?hp) ''#'' = Some (U64 (j * blockSize (blockPool ?s0)))) \<and>
      priorityCh (threadPool s1) = priorityCh (threadPool ?s0) @ map (item_at s1 ?hp) [0..<min 1 j] \<and>
      normalCh (threadPool s1) = normalCh (threadPool ?s0) @ map (item_at s1 ?hp) [max 1 0..<j] \<and>
      (\<forall>m. 0 \<le> m \<and> m < j \<longrightarrow> (\<exists>w. GetValue (handles s1 ?hp) (Sprintf m) = Some (Item w))) \<and>
      (\<forall>key. key \<noteq> ''#'' \<and> (\<forall>m. 0 \<le> m \<longrightarrow> key \<noteq> Sprintf m) \<longrightarrow>
         GetValue (handles s1 ?hp) key = GetValue (handles ?s0 ?hp) key)"
    by (rule OpenFile_loop_run [OF l]) (use assms(3,4,5) in simp_all)
  then obtain j where
    j2: "free_blocks (blockPool s1) + j = free_blocks (blockPool s)"
    and j4: "\<forall>m<j. m < prefetch s \<and> int (m * ?bs) < sz"
    and j5: "case r1 of
         Inr off' \<Rightarrow> off' = j * ?bs \<and> \<not> (j < prefetch s \<and> int (j * ?bs) < sz)
       | Inl err \<Rightarrow> err = PrefetchScheduleFailed \<and> blocksCh (blockPool s1) = [] \<and>
           GetValue (handles s1 ?hp) ''#'' = Some (U64 (j * ?bs))"
    and j6: "priorityCh (threadPool s1) = priorityCh (threadPool s) @ map (item_at s1 ?hp) [0..<min 1 j]"
    and j7: "normalCh (threadPool s1) = normalCh (threadPool s) @ map (item_at s1 ?hp) [1..<j]"
    and j8: "\<forall>m<j. \<exists>w. GetValue (handles s1 ?hp) (Sprintf m) = Some (Item w)"
    unfolding f0 by auto
  show ?thesis
  proof (cases r1)
    case (Inl err)
    with assms(1,2) l have "s' = s1" "r = Inl err"
      by (simp_all add: OpenFile_def Let_def)
    with j2 j4 j5 j6 j7 j8 Inl show ?thesis
      by (intro exI [of _ j]) simp
  next
    case (Inr off')
    with assms(1,2) l have s': "s' = SetValue s1 ?hp ''#'' (U64 off')" and r: "r = Inr ?hp"
      by (simp_all add: OpenFile_def Let_def)
    from j8 have "\<forall>m<j. \<exists>w. GetValue (handles s' ?hp) (Sprintf m) = Some (Item w)"
      by (simp add: s' Sprintf_not_hash)
    with j2 j4 j5 j6 j7 Inr show ?thesis
      by (intro exI [of _ j]) (simp add: s' r)
  qed
qed

text \<open>
  C3. An \<open>OpenFile\<close> that succeeds on a file of size \<open>sz > 0\<close> takes
  \<open>k = min(prefetch, \<lceil>sz / blockSize\<rceil>)\<close> blocks from the pool and queues \<open>k\<close>
  fetches: the one for block 0 (offset 0), when there is one, on the priority
  channel and the ones for the blocks 1 to \<open>k - 1\<close> on the normal channel, each the
  work item stored on the handle under its block index. The pool is one that
  \<open>NewBlockPool\<close> makes (a block size above 0) and can hand out less than
  \<open>2 ^ 63\<close> bytes.
\<close>

theorem OpenFile_schedules:
  assumes "OpenFile nc s name = (s', Inr hp)" and "GetAttr nc name = Inr sz" and "0 < sz"
    and "0 < blockSize (blockPool s)" and "prefetch s < 4294967296"
    and "free_blocks (blockPool s) * blockSize (blockPool s) < 9223372036854775808"
  shows "let k = min (prefetch s) (block_count sz (blockSize (blockPool s))) in
     free_blocks (blockPool s') + k = free_blocks (blockPool s) \<and>
     length (priorityCh (threadPool s')) + length (normalCh (threadPool s')) =
       length (priorityCh (threadPool s)) + length (normalCh (threadPool s)) + k \<and>
     priorityCh (threadPool s') = priorityCh (threadPool s) @ map (item_at s' hp) [0..<min 1 k] \<and>
     normalCh (threadPool s') = normalCh (threadPool s) @ map (item_at s' hp) [1..<k] \<and>
     (\<forall>m<k. \<exists>w. GetValue (handles s' hp) (Sprintf m) = Some (Item w))"
proof -
  let ?bs = "blockSize (blockPool s)"
  from OpenFile_run [OF assms(1,2,4,5,6)] obtain j where
    j2: "free_blocks (blockPool s') + j = free_blocks (blockPool s)"
    and j4: "\<forall>m<j. m < prefetch s \<and> int (m * ?bs) < sz"
    and j5: "hp = nhandles s \<and> \<not> (j < prefetch s \<and> int (j * ?bs) < sz)"
    and j6: "priorityCh (threadPool s') = priorityCh (threadPool s) @ map (item_at s' (nhandles s)) [0..<min 1 j]"
    and j7: "normalCh (threadPool s') = normalCh (threadPool s) @ map (item_at s' (nhandles s)) [1..<j]"
    and j8: "\<forall>m<j. \<exists>w. GetValue (handles s' (nhandles s)) (Sprintf m) = Some (Item w)"
    by auto
  have "j = min (prefetch s) (block_count sz ?bs)"
  proof (rule first_failure_is_min)
    show "\<forall>m<j. m < prefetch s \<and> m < block_count sz ?bs"
      using j4 unfolding block_count_less [OF assms(4)] .
    show "\<not> (j < prefetch s \<and> j < block_count sz ?bs)"
      using j5 unfolding block_count_less [OF assms(4)] by (elim conjE)
  qed
  moreover have "min 1 j + (j - 1) = j" by (cases j) simp_all
  ultimately show ?thesis
    using j2 j5 j6 j7 j8 by (simp add: Let_def)
qed

theorem OpenFile_schedules_witness:
  "snd (OpenFile file10 (cacheOf 4 16 4) ''f'') = Inr 0 \<and>
   free_blocks (blockPool (fst (OpenFile file10 (cacheOf 4 16 4) ''f''))) = 1 \<and>
   length (priorityCh (threadPool (fst (OpenFile file10 (cacheOf 4 16 4) ''f'')))) = 1 \<and>
   length (normalCh (threadPool (fst (OpenFile file10 (cacheOf 4 16 4) ''f'')))) = 2"
proof -
  let ?s = "cacheOf 4 16 4"
  let ?O = "OpenFile file10 ?s ''f''"
  have r: "snd ?O = Inr 0" by code_simp
  then have o: "?O = (fst ?O, Inr 0)" by (cases ?O) simp
  have a: "GetAttr file10 ''f'' = Inr 10" by code_simp
  have b: "blockSize (blockPool ?s) = 4" by code_simp
  have p: "prefetch ?s = 4" by code_simp
  have f: "free_blocks (blockPool ?s) = 4" by code_simp
  have q: "priorityCh (threadPool ?s) = []" "normalCh (threadPool ?s) = []" by code_simp+
  have k: "min 4 (block_count 10 4) = 3" by code_simp
  from OpenFile_schedules [OF o a] b p f q k r show ?thesis
    by (simp add: Let_def)
qed

text \<open>
  C10. When \<open>lineupDownload\<close> fails in the loop of \<open>OpenFile\<close>, the call returns the
  error and no handle. The \<open>k\<close> blocks it has taken from the pool are still the
  work items stored under the indices 0 to \<open>k - 1\<close> of the handle it created (which
  nothing points to any more) and queued for download, and the free list of the
  pool is empty: none of them has been released.
\<close>

theorem OpenFile_failure_keeps_blocks:
  assumes "OpenFile nc s name = (s', Inl err)" and "GetAttr nc name = Inr sz"
    and "0 < blockSize (blockPool s)" and "prefetch s < 4294967296"
    and "free_blocks (blockPool s) * blockSize (blockPool s) < 9223372036854775808"
  shows "let k = free_blocks (blockPool s) - free_blocks (blockPool s'); hp = nhandles s in
     err = PrefetchScheduleFailed \<and>
     blocksCh (blockPool s') = [] \<and>
     free_blocks (blockPool s') + k = free_blocks (blockPool s) \<and>
     (\<forall>m<k. \<exists>w. GetValue (handles s' hp) (Sprintf m) = Some (Item w)) \<and>
     priorityCh (threadPool s') = priorityCh (threadPool s) @ map (item_at s' hp) [0..<min 1 k] \<and>
     normalCh (threadPool s') = normalCh (threadPool s) @ map (item_at s' hp) [1..<k]"
proof -
  from OpenFile_run [OF assms] obtain j where
    j2: "free_blocks (blockPool s') + j = free_blocks (blockPool s)"
    and j5: "err = PrefetchScheduleFailed \<and> blocksCh (blockPool s') = []"
    and j6: "priorityCh (threadPool s') = priorityCh (threadPool s) @ map (item_at s' (nhandles s)) [0..<min 1 j]"
    and j7: "normalCh (threadPool s') = normalCh (threadPool s) @ map (item_at s' (nhandles s)) [1..<j]"
    and j8: "\<forall>m<j. \<exists>w. GetValue (handles s' (nhandles s)) (Sprintf m) = Some (Item w)"
    by auto
  from j2 have "free_blocks (blockPool s) - free_blocks (blockPool s') = j" by simp
  with j2 j5 j6 j7 j8 show ?thesis by (simp add: Let_def)
qed

theorem OpenFile_failure_keeps_blocks_witness:
  "snd (OpenFile file16 (cacheOf 4 8 4) ''f'') = Inl PrefetchScheduleFailed \<and>
   blocksCh (blockPool (fst (OpenFile file16 (cacheOf 4 8 4) ''f''))) = [] \<and>
   (\<exists>w. GetValue (handles (fst (OpenFile file16 (cacheOf 4 8 4) ''f'')) 0) ''0'' = Some (Item w)) \<and>
   (\<exists>w. GetValue (handles (fst (OpenFile file16 (cacheOf 4 8 4) ''f'')) 0) ''1'' = Some (Item w))"
proof -
  let ?s = "cacheOf 4 8 4"
  let ?O = "OpenFile file16 ?s ''f''"
  have r: "snd ?O = Inl PrefetchScheduleFailed" by code_simp
  then have o: "?O = (fst ?O, Inl PrefetchScheduleFailed)" by (cases ?O) simp
  have a: "GetAttr file16 ''f'' = Inr 16" by code_simp
  have b: "blockSize (blockPool ?s) = 4" by code_simp
  have p: "prefetch ?s = 4" by code_simp
  have f: "free_blocks (blockPool ?s) = 2" "free_blocks (blockPool (fst ?O)) = 0" by code_simp+
  have n: "nhandles ?s = 0" by code_simp
  have k: "Sprintf 0 = ''0''" "Sprintf 1 = ''1''" by code_simp+
  from OpenFile_failure_keeps_blocks [OF o a] b p f n
  have "blocksCh (blockPool (fst ?O)) = [] \<and>
        (\<forall>m<2. \<exists>w. GetValue (handles (fst ?O) 0) (Sprintf m) = Some (Item w))"
    by (simp add: Let_def)
  then have "blocksCh (blockPool (fst ?O)) = [] \<and>
        (\<exists>w. GetValue (handles (fst ?O) 0) (Sprintf 0) = Some (Item w)) \<and>
        (\<exists>w. GetValue (handles (fst ?O) 0) (Sprintf 1) = Some (Item w))"
    by simp
  with r k show ?thesis by simp
qed

section \<open>The next prefetch offset\<close>

lemma hash_not_Sprintf: "''#'' \<noteq> Sprintf n"
  using Sprintf_not_hash [of n] by simp

lemma download_frame:
  "handles (download nc s item) = handles s \<and> blockPool (download nc s item) = blockPool s"
  by (simp add: download_def Let_def split: prod.splits)

lemma worker_step_frame:
  "worker_step nc s = Some s1 \<Longrightarrow> handles s1 = handles s \<and> blockPool s1 = blockPool s"
  by (auto simp: worker_step_def Let_def download_frame split: list.splits)

lemma await_frame:
  assumes "await nc s b = Some (s', t)"
  shows "handles s' = handles s \<and> blockPool s' = blockPool s"
proof -
  define P where "P nc s b res \<longleftrightarrow> handles (fst res) = handles s \<and> blockPool (fst res) = blockPool s"
    for nc :: NextComponent and s :: BlockCache and b :: nat and res :: "BlockCache \<times> nat"
  have "P nc s b (s', t)"
  proof (rule await.raw_induct [OF _ assms])
    fix aw nc' s0 b' res
    assume IH: "\<And>nc s b res. aw nc s b = Some res \<Longrightarrow> P nc s b res"
      and eq: "(case recv (heap s0 b') of
                  None \<Rightarrow> (case worker_step nc' s0 of None \<Rightarrow> None | Some s1 \<Rightarrow> aw nc' s1 b')
                | Some (blk, t) \<Rightarrow> Some (heap_upd s0 b' blk, t)) = Some res"
    show "P nc' s0 b' res"
    proof (cases "recv (heap s0 b')")
      case (Some p)
      with eq show ?thesis by (auto simp: P_def split: prod.splits)
    next
      case None
      show ?thesis
      proof (cases "worker_step nc' s0")
        case n: None
        with eq None show ?thesis by simp
      next
        case (Some s1)
        with eq None have "aw nc' s1 b' = Some res" by simp
        then have "P nc' s1 b' res" by (rule IH)
        with worker_step_frame [OF Some] show ?thesis by (simp add: P_def)
      qed
    qed
  qed
  then show ?thesis by (simp add: P_def)
qed

lemma uint64_int: "0 \<le> x \<Longrightarrow> x < 18446744073709551616 \<Longrightarrow> uint64 x = nat x"
  by (simp add: uint64_def)

lemma firstReader_hash:
  assumes "firstReader s hp = (s', e)"
    and "GetValue (handles s hp) ''#'' = Some (U64 lastoff)"
    and "0 < blockSize (blockPool s)" and "blockSize (blockPool s) < 9223372036854775808"
    and "0 \<le> Size (handles s hp)" and "Size (handles s hp) < 9223372036854775808"
  shows "GetValue (handles s' hp) ''#'' =
           Some (U64 (lastoff + blockSize (blockPool s) * (free_blocks (blockPool s) - free_blocks (blockPool s')))) \<and>
         free_blocks (blockPool s') \<le> free_blocks (blockPool s)"
proof (cases "lastoff < uint64 (Size (handles s hp))")
  case False
  with assms(1,2) have "s' = s" by (simp add: firstReader_def)
  with assms(2) show ?thesis by simp
next
  case True
  obtain s1 r where l: "lineupDownload s hp lastoff = (s1, r)" by (cases "lineupDownload s hp lastoff")
  show ?thesis
  proof (cases r)
    case (Some err)
    from lineupDownload_Some [OF l [unfolded Some] assms(3)] have "s1 = s" by simp
    with assms(1,2) True l Some have "s' = s" by (simp add: firstReader_def)
    with assms(2) show ?thesis by simp
  next
    case None
    note L = lineupDownload_None [OF l [unfolded None]]
    from assms(1,2) True l None have s': "s' = SetValue s1 hp ''#'' (U64 (add64 lastoff (blockSize (blockPool s1))))"
      by (simp add: firstReader_def)
    have "uint64 (Size (handles s hp)) = nat (Size (handles s hp))"
      using assms(5,6) by (intro uint64_int) simp_all
    with True assms(6) have "lastoff < 9223372036854775808" by linarith
    with assms(4) have "lastoff + blockSize (blockPool s) < 18446744073709551616" by simp
    then have "add64 lastoff (blockSize (blockPool s1)) = lastoff + blockSize (blockPool s)"
      using L(2) by (simp add: add64_small)
    moreover have "free_blocks (blockPool s) - free_blocks (blockPool s1) = 1" using L(1) by simp
    moreover have "free_blocks (blockPool s1) \<le> free_blocks (blockPool s)" using L(1) by simp
    ultimately show ?thesis by (simp add: s')
  qed
qed

lemma secondReader_hash:
  assumes "secondReader s hp b = (s', e)"
  shows "GetValue (handles s' hp) ''#'' = GetValue (handles s hp) ''#'' \<and> blockPool s' = blockPool s"
proof -
  have r: "GetValue (handles (RemoveValue s0 hp key) hp) ''#'' = GetValue (handles s0 hp) ''#''"
    if "key \<noteq> ''#''" for s0 key
    using that by (simp add: GetValue_def RemoveValue_def delete_conv')
  from assms show ?thesis
    by (auto simp: secondReader_def Let_def r Sprintf_not_hash split: if_splits option.splits hvalue.splits)
qed

lemma findItem_hash:
  assumes "findItem s hp ro = (s1, r)" and "0 < blockSize (blockPool s)"
  shows "GetValue (handles s1 hp) ''#'' = GetValue (handles s hp) ''#'' \<and>
         blockSize (blockPool s1) = blockSize (blockPool s) \<and>
         Size (handles s1 hp) = Size (handles s hp) \<and>
         (case r of
            Inl err \<Rightarrow> s1 = s
          | Inr v \<Rightarrow> free_blocks (blockPool s1) +
              (if GetValue (handles s hp) (Sprintf (getBlockIndex s ro)) = None then 1 else 0) =
              free_blocks (blockPool s))"
proof (cases "GetValue (handles s hp) (Sprintf (getBlockIndex s ro))")
  case (Some v)
  with assms(1) show ?thesis by (auto simp: findItem_def)
next
  case None
  obtain s2 e where l: "lineupDownload s hp ro = (s2, e)" by (cases "lineupDownload s hp ro")
  show ?thesis
  proof (cases e)
    case (Some err)
    from lineupDownload_Some [OF l [unfolded Some] assms(2)] have "s2 = s" by simp
    with assms(1) None l Some show ?thesis by (auto simp: findItem_def)
  next
    case n: None
    note L = lineupDownload_None [OF l [unfolded n]]
    from L(5) have h: "GetValue (handles s2 hp) ''#'' = GetValue (handles s hp) ''#''"
      by (auto simp: hash_not_Sprintf)
    from L(5) have "GetValue (handles s2 hp) (Sprintf (getBlockIndex s ro)) \<noteq> None"
      by (auto simp: getBlockIndex_def)
    with assms(1) None l n obtain v where "s1 = s2" "r = Inr v"
      by (auto simp: findItem_def split: option.splits)
    with h L(1,2,4) None show ?thesis by simp
  qed
qed

lemma getBlock_hash:
  assumes "getBlock nc s hp ro = Some (s', r)"
    and "GetValue (handles s hp) ''#'' = Some (U64 lastoff)"
    and "blockSize (blockPool s) < 9223372036854775808"
    and "0 \<le> Size (handles s hp)" and "Size (handles s hp) < 9223372036854775808"
  shows "GetValue (handles s' hp) ''#'' =
           Some (U64 (lastoff + blockSize (blockPool s) *
             (free_blocks (blockPool s) - free_blocks (blockPool s') -
              (if GetValue (handles s hp) (Sprintf (getBlockIndex s ro)) = None then 1 else 0))))"
proof -
  let ?hole = "if GetValue (handles s hp) (Sprintf (getBlockIndex s ro)) = None then 1 else 0 :: nat"
  let ?bs = "blockSize (blockPool s)"
  show ?thesis
  proof (cases "uint64 (Size (handles s hp)) \<le> ro \<or> ?bs = 0")
    case True
    with assms(1) have "s' = s" by (auto simp: getBlock_def split: if_splits)
    with assms(2) show ?thesis by simp
  next
    case False
    then have bs: "0 < ?bs" by simp
    obtain s1 f where f: "findItem s hp ro = (s1, f)" by (cases "findItem s hp ro")
    from findItem_hash [OF f bs] have
      h1: "GetValue (handles s1 hp) ''#'' = Some (U64 lastoff)"
      and b1: "blockSize (blockPool s1) = ?bs" and z1: "Size (handles s1 hp) = Size (handles s hp)"
      and c1: "case f of Inl err \<Rightarrow> s1 = s | Inr v \<Rightarrow> free_blocks (blockPool s1) + ?hole = free_blocks (blockPool s)"
      using assms(2) by simp_all
    show ?thesis
    proof (cases f)
      case (Inl err)
      with assms(1) False f c1 have "s' = s" by (simp add: getBlock_def)
      with assms(2) show ?thesis by simp
    next
      case (Inr v)
      with c1 have fb1: "free_blocks (blockPool s1) + ?hole = free_blocks (blockPool s)" by simp
      show ?thesis
      proof (cases v)
        case (U64 x)
        with assms(1) False f Inr have "s' = s1" by (simp add: getBlock_def)
        with h1 fb1 show ?thesis by simp
      next
        case (Item item)
        from assms(1) False f Inr Item obtain s2 t where
          a: "await nc s1 (block item) = Some (s2, t)"
          by (auto simp: getBlock_def split: option.splits)
        from await_frame [OF a] have fr: "handles s2 = handles s1" "blockPool s2 = blockPool s1"
          by simp_all
        show ?thesis
        proof (cases "t = 1")
          case True
          obtain s3 e where fr1: "firstReader s2 hp = (s3, e)" by (cases "firstReader s2 hp")
          from assms(1) False f Inr Item a True fr1 have s': "s' = s3"
            by (auto simp: getBlock_def split: option.splits)
          have "GetValue (handles s3 hp) ''#'' =
                  Some (U64 (lastoff + blockSize (blockPool s2) * (free_blocks (blockPool s2) - free_blocks (blockPool s3)))) \<and>
                free_blocks (blockPool s3) \<le> free_blocks (blockPool s2)"
            by (rule firstReader_hash [OF fr1]) (use fr h1 b1 z1 bs assms(3,4,5) in simp_all)
          moreover have "free_blocks (blockPool s) - free_blocks (blockPool s3) - ?hole =
                         free_blocks (blockPool s1) - free_blocks (blockPool s3)"
            using fb1 by simp
          ultimately show ?thesis using fr b1 by (simp add: s')
        next
          case False
          note t1 = False
          show ?thesis
          proof (cases "t = 2")
            case True
            obtain s3 e where sr: "secondReader s2 hp (block item) = (s3, e)"
              by (cases "secondReader s2 hp (block item)")
            from assms(1) \<open>\<not> (uint64 (Size (handles s hp)) \<le> ro \<or> ?bs = 0)\<close> f Inr Item a True sr
            have s': "s' = s3"
              by (auto simp: getBlock_def split: option.splits)
            from secondReader_hash [OF sr] fr h1 fb1 show ?thesis by (simp add: s')
          next
            case False
            from assms(1) \<open>\<not> (uint64 (Size (handles s hp)) \<le> ro \<or> ?bs = 0)\<close> f Inr Item a t1 False
            have "s' = s2" by (simp add: getBlock_def)
            with fr h1 fb1 show ?thesis by simp
          qed
        qed
      qed
    qed
  qed
qed

text \<open>
  C5, as stated, at a read of offset 0 after block 0 has been evicted (the two
  readers of block 3 have passed): \<open>getBlock\<close> finds no item for index 0, lines the
  block up again with the last free block of the pool and returns it, and \<open>"#"\<close> is
  16 before and after: the hole-filling path queues a block and does not move
  \<open>"#"\<close>.
\<close>

theorem hole_filling_counterexample:
  "GetValue (handles evicted16 0) ''0'' = None \<and>
   GetValue (handles evicted16 0) ''#'' = Some (U64 16) \<and>
   free_blocks (blockPool evicted16) = 1 \<and>
   outcome (getBlock file16 evicted16 0 0) = Some (Inr 4) \<and>
   GetValue (handles (state_after (getBlock file16 evicted16 0 0)) 0) ''0'' =
     Some (Item \<lparr>handle = 0, block = 4\<rparr>) \<and>
   free_blocks (blockPool (state_after (getBlock file16 evicted16 0 0))) = 0 \<and>
   GetValue (handles (state_after (getBlock file16 evicted16 0 0)) 0) ''#'' = Some (U64 16)"
  by code_simp

text \<open>
  C5, amended. \<open>"#"\<close> never decreases, and it increases by exactly the block size
  for every block that the prefetch loop of \<open>OpenFile\<close> or the first-reader path of
  \<open>getBlock\<close> queues: after \<open>OpenFile\<close> it is the block size times the number of
  blocks taken from the pool, and a \<open>getBlock\<close> that returns adds the block size
  times the number of blocks it took from the pool, not counting the block of the
  hole-filling path (taken when the index of the read had no item on the handle),
  which leaves \<open>"#"\<close> as it is.
\<close>

theorem hash_advances:
  "(OpenFile nc s name = (s', r) \<and> GetAttr nc name = Inr sz \<and> 0 < blockSize (blockPool s) \<and>
    prefetch s < 4294967296 \<and>
    free_blocks (blockPool s) * blockSize (blockPool s) < 9223372036854775808 \<longrightarrow>
      GetValue (handles s' (nhandles s)) ''#'' =
        Some (U64 (blockSize (blockPool s) * (free_blocks (blockPool s) - free_blocks (blockPool s'))))) \<and>
   (getBlock nc s hp ro = Some (s', g) \<and> GetValue (handles s hp) ''#'' = Some (U64 lastoff) \<and>
    blockSize (blockPool s) < 9223372036854775808 \<and>
    0 \<le> Size (handles s hp) \<and> Size (handles s hp) < 9223372036854775808 \<longrightarrow>
      GetValue (handles s' hp) ''#'' =
        Some (U64 (lastoff + blockSize (blockPool s) *
          (free_blocks (blockPool s) - free_blocks (blockPool s') -
           (if GetValue (handles s hp) (Sprintf (getBlockIndex s ro)) = None then 1 else 0)))))"
proof (intro conjI impI)
  assume a: "OpenFile nc s name = (s', r) \<and> GetAttr nc name = Inr sz \<and> 0 < blockSize (blockPool s) \<and>
    prefetch s < 4294967296 \<and>
    free_blocks (blockPool s) * blockSize (blockPool s) < 9223372036854775808"
  then have "\<exists>j. free_blocks (blockPool s') + j = free_blocks (blockPool s) \<and>
      GetValue (handles s' (nhandles s)) ''#'' = Some (U64 (j * blockSize (blockPool s)))"
    using OpenFile_run [of nc s name s' r sz] by blast
  then obtain j where "free_blocks (blockPool s') + j = free_blocks (blockPool s)"
    and h: "GetValue (handles s' (nhandles s)) ''#'' = Some (U64 (j * blockSize (blockPool s)))"
    by blast
  then have "free_blocks (blockPool s) - free_blocks (blockPool s') = j" by simp
  with h show "GetValue (handles s' (nhandles s)) ''#'' =
        Some (U64 (blockSize (blockPool s) * (free_blocks (blockPool s) - free_blocks (blockPool s'))))"
    by (simp add: mult.commute)
next
  assume "getBlock nc s hp ro = Some (s', g) \<and> GetValue (handles s hp) ''#'' = Some (U64 lastoff) \<and>
    blockSize (blockPool s) < 9223372036854775808 \<and>
    0 \<le> Size (handles s hp) \<and> Size (handles s hp) < 9223372036854775808"
  then show "GetValue (handles s' hp) ''#'' =
        Some (U64 (lastoff + blockSize (blockPool s) *
          (free_blocks (blockPool s) - free_blocks (blockPool s') -
           (if GetValue (handles s hp) (Sprintf (getBlockIndex s ro)) = None then 1 else 0))))"
    using getBlock_hash [of nc s hp ro s' g lastoff] by blast
qed

theorem hash_advances_witness:
  "GetValue (handles open16one 0) ''#'' = Some (U64 4) \<and>
   GetValue (handles (state_after (getBlock file16 open16one 0 0)) 0) ''#'' = Some (U64 8)"
proof -
  let ?c = "cacheOf 4 16 1"
  let ?O = "OpenFile file16 ?c ''f''"
  let ?G = "getBlock file16 open16one 0 0"
  have o: "?O = (open16one, snd ?O)" by (simp add: open16one_def)
  have a: "GetAttr file16 ''f'' = Inr 16" by code_simp
  have b: "blockSize (blockPool ?c) = 4" "prefetch ?c = 1" "nhandles ?c = 0" by code_simp+
  have f: "free_blocks (blockPool ?c) = 4" "free_blocks (blockPool open16one) = 3" by code_simp+
  from hash_advances [where nc = file16 and s = ?c and name = "''f''" and s' = open16one
      and r = "snd ?O" and sz = 16, THEN conjunct1] o a b f
  have h1: "GetValue (handles open16one 0) ''#'' = Some (U64 4)" by simp
  have "outcome ?G = Some (Inr 0)" by code_simp
  then have g: "?G = Some (state_after ?G, Inr 0)"
    by (cases ?G) (auto simp: state_after_def outcome_def)
  have b1: "blockSize (blockPool open16one) = 4" "Size (handles open16one 0) = 16" by code_simp+
  have f1: "free_blocks (blockPool (state_after ?G)) = 2" by code_simp
  have k: "GetValue (handles open16one 0) (Sprintf (getBlockIndex open16one 0)) \<noteq> None" by code_simp
  from hash_advances [where nc = file16 and s = open16one and s' = "state_after ?G" and hp = 0
      and ro = 0 and g = "Inr 0" and lastoff = 4, THEN conjunct2] g h1 b1 f f1 k
  have "GetValue (handles (state_after ?G) 0) ''#'' = Some (U64 8)" by simp
  with h1 show ?thesis by simp
qed

section \<open>Configuration\<close>

text \<open>
  The pool that \<open>Configure\<close> makes has a block size above 0 and can hand out less
  than \<open>2 ^ 32\<close> bytes, \<open>memSize / blockSize\<close> blocks in all.
\<close>

lemma Configure_pool:
  assumes "Configure s readonly conf = Inr s'"
  shows "0 < blockSize (blockPool s') \<and> blocksCh (blockPool s') = [] \<and>
         free_blocks (blockPool s') * blockSize (blockPool s') < 4294967296 \<and>
         prefetch s' = PrefetchCount conf"
proof -
  let ?b = "mul32 (BlockSize conf) MB1" and ?m = "mul32 (MemSize conf) MB1"
  from assms obtain pool where p: "NewBlockPool ?b ?m = Some pool" and s': "blockPool s' = pool"
    and pf: "prefetch s' = PrefetchCount conf"
    by (auto simp: Configure_def Let_def split: if_splits option.splits)
  from p have b: "0 < ?b" and pool: "pool = \<lparr>blockSize = ?b, maxBlocks = ?m div ?b, blocksCh = [], blocks = 0\<rparr>"
    by (auto simp: NewBlockPool_def split: if_splits)
  have "?m < 4294967296" by (simp add: mul32_def nat_less_iff)
  moreover have "?m div ?b * ?b \<le> ?m" by simp
  ultimately have "?m div ?b * ?b < 4294967296" by linarith
  with b pool s' pf show ?thesis by (simp add: free_blocks_def)
qed

end
